theory Spec2Isabelle
  imports Complex_Main "HOL-Library.AList" "HOL-Library.Multiset"
begin

chapter \<open>Scenario submission: grading and progression\<close>

text \<open>
  A shallow embedding of \<^verbatim>\<open>ScenarioController.submit\<close>, the handler behind
  \<^verbatim>\<open>POST /scenarios/:id/submit\<close>, together with the \<^verbatim>\<open>requireAuth\<close> middleware
  in front of it. The handler grades an array of answers against the steps of a
  scenario, stores the score, recomputes whether the level is completed, unlocks the
  next level and awards the level's badge.

  Scope of the model: \<^verbatim>\<open>req.params.id\<close> is taken as the parsed integer; answers are
  strings or null, as the handler's documentation types them; strings are ASCII.
\<close>

section \<open>JavaScript numbers\<close>

text \<open>
  The score is computed by \<^verbatim>\<open>Math.round((correctCount / total) * 100)\<close>.
  Both operands are JavaScript numbers, so the division and the multiplication are
  IEEE 754 double-precision operations: each returns the exact result rounded to the
  nearest value with a 53-bit significand, ties to the even significand. A double is
  modelled by the rational number it denotes. Overflow and subnormal numbers are left
  out: the values that occur here lie between \<open>1 / total\<close> and \<open>100\<close>.
\<close>

fun ilog2 :: "nat \<Rightarrow> nat" where
  "ilog2 n = (if n < 2 then 0 else Suc (ilog2 (n div 2)))"

declare ilog2.simps [simp del]

definition double_exponent :: "rat \<Rightarrow> int" where
  \<comment> \<open>the \<open>e\<close> with \<open>2 ^ e \<le> x < 2 ^ (e + 1)\<close>, for \<open>x > 0\<close>\<close>
  "double_exponent x =
     (if 1 \<le> x then int (ilog2 (nat \<lfloor>x\<rfloor>))
      else - int (Suc (ilog2 (nat (\<lceil>1 / x\<rceil> - 1)))))"

definition round_ties_even :: "rat \<Rightarrow> int" where
  "round_ties_even m =
     (let f = \<lfloor>m\<rfloor>; r = m - of_int f
      in if r < 1 / 2 then f
         else if 1 / 2 < r then f + 1
         else if even f then f else f + 1)"

definition to_double :: "rat \<Rightarrow> rat" where
  "to_double x =
     (if x = 0 then 0
      else let u = 2 powi (double_exponent \<bar>x\<bar> - 52)
           in of_int (round_ties_even (x / u)) * u)"

definition js_div :: "rat \<Rightarrow> rat \<Rightarrow> rat" where
  "js_div x y = to_double (x / y)"

definition js_mul :: "rat \<Rightarrow> rat \<Rightarrow> rat" where
  "js_mul x y = to_double (x * y)"

definition Math_round :: "rat \<Rightarrow> int" where
  \<comment> \<open>nearest integer, a tie goes up\<close>
  "Math_round x = \<lfloor>x + 1 / 2\<rfloor>"

section \<open>Strings\<close>

text \<open>
  Strings are ASCII strings; \<^verbatim>\<open>toUpperCase\<close> maps the letters a to z to A to Z
  and leaves every other character alone.
\<close>

definition upper_char :: "char \<Rightarrow> char" where
  "upper_char c =
     (let n = (of_char c :: nat)
      in if 97 \<le> n \<and> n \<le> 122 then char_of (n - 32) else c)"

definition toUpperCase :: "string \<Rightarrow> string" where
  "toUpperCase s = map upper_char s"

definition or_empty :: "string option \<Rightarrow> string" where
  \<comment> \<open>\<^verbatim>\<open>(v || "").toString()\<close> for a value that is a string, null or undefined\<close>
  "or_empty v = (case v of None \<Rightarrow> [] | Some s \<Rightarrow> s)"


section \<open>Data model\<close>

text \<open>
  The entities as the submission handler reads and writes them. Identifiers, counts and
  level numbers are natural numbers; \<open>step_order\<close> is an integer column. A field that
  may be null is an option.
\<close>

record scenario_step =
  step_id :: nat
  step_order :: int
  correct_action :: "string option"

record scenario =
  scenario_id :: nat
  level_id :: nat

record badge =
  badge_id :: nat
  name :: string
  description :: string
  icon_url :: string

record attempt =
  att_user_id :: nat
  att_scenario_id :: nat
  att_score :: int
  att_all_correct :: bool

record user_level =
  ul_user_id :: nat
  ul_level_id :: nat
  unlocked :: bool
  completed :: bool

record user_badge =
  ub_user_id :: nat
  ub_badge_id :: nat

subsection \<open>Request and response\<close>

text \<open>
  \<^verbatim>\<open>req.body.userAnswers\<close> is documented as \<^verbatim>\<open>string[]\<close>. The handler tests
  it with \<^verbatim>\<open>!userAnswers || !Array.isArray(userAnswers)\<close>, so the model keeps
  three shapes: nothing (undefined or null), a value that is not an array, and an
  array. An element of the array is a string or null; reading past the end of the
  array gives undefined, which the handler treats like null.
\<close>

datatype answers_payload =
    NoAnswers
  | NotAnArray
  | Answers "string option list"

record request =
  params_id :: nat
  userAnswers :: answers_payload
  user_id :: "nat option"

datatype level_progress =
    LevelCompleted nat nat
  | LevelIncomplete nat nat nat

record submit_result =
  score :: int
  all_correct :: bool
  res_level_id :: nat
  res_scenario_id :: nat
  level_progress :: "level_progress option"
  awarded_badge :: "badge option"
  updated_scenario :: "scenario option"

datatype http_error = HttpError nat string

section \<open>Persistence gateways\<close>

text \<open>
  The handler reaches the database through repository objects. It is defined here over
  an arbitrary store type \<open>'s\<close> and an arbitrary
  implementation of the repository methods it calls: reads take the store and return
  a value, writes take the store and return the new one. A repository call that fails
  with an exception, which the handler passes on to \<^verbatim>\<open>next\<close>, is not modelled.
\<close>

record 's gateways =
  scenario_findById :: "'s \<Rightarrow> nat \<Rightarrow> scenario option"
  step_findByScenario :: "'s \<Rightarrow> nat \<Rightarrow> scenario_step list"
  upsertBestScore :: "attempt \<Rightarrow> 's \<Rightarrow> 's"
  countPerfectByUserInLevel :: "'s \<Rightarrow> nat \<Rightarrow> nat \<Rightarrow> nat"
  countByLevel :: "'s \<Rightarrow> nat \<Rightarrow> nat"
  upsertProgress :: "user_level \<Rightarrow> 's \<Rightarrow> 's"
  findByLevel :: "'s \<Rightarrow> nat \<Rightarrow> badge option"
  findByUserAndBadge :: "'s \<Rightarrow> nat \<Rightarrow> nat \<Rightarrow> user_badge option"
  userBadge_create :: "user_badge \<Rightarrow> 's \<Rightarrow> 's"

text \<open>The writes a submission issues are recorded, in order, next to the store.\<close>

datatype db_write =
    UpsertBestScore attempt
  | UpsertProgress user_level
  | CreateUserBadge user_badge

fun apply_write :: "'s gateways \<Rightarrow> db_write \<Rightarrow> 's \<Rightarrow> 's" where
  "apply_write g (UpsertBestScore a) s = upsertBestScore g a s"
| "apply_write g (UpsertProgress ul) s = upsertProgress g ul s"
| "apply_write g (CreateUserBadge ub) s = userBadge_create g ub s"

text \<open>
  \<^verbatim>\<open>ScenarioService.getScenario\<close> and \<^verbatim>\<open>ScenarioStepService.getStepsByScenario\<close>
  pass the repository's answer through a DTO conversion, which keeps the fields
  modelled here.
\<close>

definition getScenario :: "'s gateways \<Rightarrow> 's \<Rightarrow> nat \<Rightarrow> scenario option" where
  "getScenario g s ident =
     (case scenario_findById g s ident of None \<Rightarrow> None | Some sc \<Rightarrow> Some sc)"

definition getStepsByScenario :: "'s gateways \<Rightarrow> 's \<Rightarrow> nat \<Rightarrow> scenario_step list" where
  "getStepsByScenario g s ident = map (\<lambda>st. st) (step_findByScenario g s ident)"

section \<open>Grading\<close>

text \<open>
  \<^verbatim>\<open>steps.sort((a, b) => Number(a.step_order) - Number(b.step_order))\<close> is a
  stable sort by \<open>step_order\<close>; \<^verbatim>\<open>forEach((step, i) => ...)\<close> walks the sorted
  steps with their index.
\<close>

definition answer_at :: "string option list \<Rightarrow> nat \<Rightarrow> string option" where
  \<comment> \<open>\<^verbatim>\<open>userAnswers[i]\<close>: undefined past the end\<close>
  "answer_at answers i = (if i < length answers then answers ! i else None)"

fun forEach_step :: "scenario_step list \<Rightarrow> nat \<Rightarrow> string option list \<Rightarrow> nat \<Rightarrow> nat" where
  "forEach_step [] i answers correctCount = correctCount"
| "forEach_step (step # rest) i answers correctCount =
     (let picked = toUpperCase (or_empty (answer_at answers i));
          correct = toUpperCase (or_empty (correct_action step))
      in forEach_step rest (Suc i) answers
           (if picked \<noteq> [] \<and> picked = correct then correctCount + 1 else correctCount))"

definition correctCount :: "scenario_step list \<Rightarrow> string option list \<Rightarrow> nat" where
  "correctCount steps answers = forEach_step (sort_key step_order steps) 0 answers 0"

section \<open>The submission handler\<close>

definition truthy_id :: "nat option \<Rightarrow> bool" where
  \<comment> \<open>\<^verbatim>\<open>if (userId)\<close>: undefined and 0 are falsy\<close>
  "truthy_id u = (case u of None \<Rightarrow> False | Some n \<Rightarrow> n \<noteq> 0)"

definition completedThisLevel :: "nat \<Rightarrow> nat \<Rightarrow> bool" where
  "completedThisLevel totalInLevel perfectInLevel =
     (0 < totalInLevel \<and> perfectInLevel = totalInLevel)"

definition unlock_next :: "'s gateways \<Rightarrow> nat \<Rightarrow> nat \<Rightarrow> 's \<Rightarrow> db_write list \<times> 's" where
  \<comment> \<open>the inner \<^verbatim>\<open>if (scenario.level_id < 6)\<close>\<close>
  "unlock_next g userId level s =
     (let nextLevelId = level + 1
      in if level < 6
         then let w = UpsertProgress \<lparr>ul_user_id = userId, ul_level_id = nextLevelId,
                                      unlocked = True, completed = False\<rparr>
              in ([w], apply_write g w s)
         else ([], s))"

definition award_badge :: "'s gateways \<Rightarrow> nat \<Rightarrow> nat \<Rightarrow> 's \<Rightarrow> badge option \<times> db_write list \<times> 's" where
  \<comment> \<open>the badge lookup, the existence check and the insert\<close>
  "award_badge g userId level s =
     (case findByLevel g s level of
        None \<Rightarrow> (None, [], s)
      | Some b \<Rightarrow>
          (case findByUserAndBadge g s userId (badge_id b) of
             Some existing \<Rightarrow> (None, [], s)
           | None \<Rightarrow>
               let w = CreateUserBadge \<lparr>ub_user_id = userId, ub_badge_id = badge_id b\<rparr>
               in (Some \<lparr>badge_id = badge_id b, name = name b,
                          description = description b, icon_url = icon_url b\<rparr>,
                   [w], apply_write g w s)))"

definition record_progress ::
  "'s gateways \<Rightarrow> nat \<Rightarrow> scenario \<Rightarrow> nat \<Rightarrow> submit_result \<Rightarrow> 's
     \<Rightarrow> submit_result \<times> db_write list \<times> 's" where
  \<comment> \<open>the body of \<^verbatim>\<open>if (userId) { ... }\<close>\<close>
  "record_progress g userId sc scenarioId result s =
     (let w1 = UpsertBestScore \<lparr>att_user_id = userId, att_scenario_id = scenarioId,
                                 att_score = score result, att_all_correct = all_correct result\<rparr>;
          s1 = apply_write g w1 s;
          perfectInLevel = countPerfectByUserInLevel g s1 userId (level_id sc);
          totalInLevel = countByLevel g s1 (level_id sc);
          completedFlag = completedThisLevel totalInLevel perfectInLevel;
          w2 = UpsertProgress \<lparr>ul_user_id = userId, ul_level_id = level_id sc,
                                unlocked = True, completed = completedFlag\<rparr>;
          s2 = apply_write g w2 s1
      in if completedFlag
         then let (ws3, s3) = unlock_next g userId (level_id sc) s2;
                  (awarded, ws4, s4) = award_badge g userId (level_id sc) s3
              in (result\<lparr>level_progress := Some (LevelCompleted (level_id sc) (level_id sc + 1)),
                         awarded_badge := awarded,
                         updated_scenario := getScenario g s4 scenarioId\<rparr>,
                  [w1, w2] @ ws3 @ ws4, s4)
         else (result\<lparr>level_progress :=
                           Some (LevelIncomplete (level_id sc) perfectInLevel totalInLevel),
                       updated_scenario := getScenario g s2 scenarioId\<rparr>,
               [w1, w2], s2))"

definition submit ::
  "'s gateways \<Rightarrow> request \<Rightarrow> 's \<Rightarrow> (http_error + submit_result) \<times> db_write list \<times> 's" where
  "submit g req s =
     (case userAnswers req of
        Answers answers \<Rightarrow>
          (let scenarioId = params_id req
           in case getScenario g s scenarioId of
                None \<Rightarrow> (Inl (HttpError 404 ''Scenario not found''), [], s)
              | Some sc \<Rightarrow>
                  (let steps = getStepsByScenario g s scenarioId
                   in if steps = []
                      then (Inl (HttpError 404 ''No steps found for this scenario.''), [], s)
                      else
                        (let total = length steps;
                             correct = correctCount steps answers;
                             score = Math_round (js_mul (js_div (of_nat correct) (of_nat total)) 100);
                             allCorrect = (correct = total);
                             result = \<lparr>score = score, all_correct = allCorrect,
                                       res_level_id = level_id sc, res_scenario_id = scenarioId,
                                       level_progress = None, awarded_badge = None,
                                       updated_scenario = None\<rparr>
                         in case user_id req of
                              Some userId \<Rightarrow>
                                if userId \<noteq> 0
                                then (case record_progress g userId sc scenarioId result s of
                                        (r, ws, s') \<Rightarrow> (Inr r, ws, s'))
                                else (Inr result, [], s)
                            | None \<Rightarrow> (Inr result, [], s))))
      | _ \<Rightarrow> (Inl (HttpError 400 ''userAnswers must be an array.''), [], s))"


text \<open>
  \<^verbatim>\<open>AttemptService.saveBestScore\<close> hands its argument to the repository and returns
  what the repository returns; it holds no comparison of its own.
\<close>

definition saveBestScore :: "'s gateways \<Rightarrow> attempt \<Rightarrow> 's \<Rightarrow> db_write list \<times> 's" where
  "saveBestScore g data s =
     (let w = UpsertBestScore data in ([w], apply_write g w s))"

section \<open>The route\<close>

text \<open>
  \<^verbatim>\<open>scenarioRoutes.post("/:id/submit", requireAuth, controller.submit)\<close>: the
  middleware runs first and either answers 401 or sets \<^verbatim>\<open>req.user\<close> and calls the
  handler. \<^verbatim>\<open>verifyAccess\<close> is a parameter: a function from the token to the
  decoded payload, \<open>None\<close> where it throws.
\<close>

record jwt_payload =
  sub :: "nat option"
  role :: string





subsection \<open>Bearer credentials\<close>


section \<open>A store modelled from the specification\<close>

text \<open>
  The repository classes (\<^verbatim>\<open>ScenarioRepository\<close>, \<^verbatim>\<open>ScenarioStepRepository\<close>,
  \<^verbatim>\<open>AttemptRepository\<close>, \<^verbatim>\<open>BadgesRepository\<close>, \<^verbatim>\<open>UserBadgeRepository\<close>,
  \<^verbatim>\<open>UserLevelRepository\<close>) are not modelled from code. The store below follows
  the specification's data model and its list of consumed interfaces: Attempt rows are
  keyed by (user, scenario) and UserLevel rows by (user, level), so both are
  association lists updated in place or extended; UserBadge rows are a plain list, so
  that a duplicate row can be expressed. Timestamps and generated row identifiers are
  left out.
\<close>

record db =
  scenarios :: "scenario list"
  scenario_steps :: "(nat \<times> scenario_step) list"
  attempts :: "((nat \<times> nat) \<times> (int \<times> bool)) list"
  badges :: "(nat \<times> badge) list"
  user_badges :: "user_badge list"
  user_levels :: "((nat \<times> nat) \<times> (bool \<times> bool)) list"

definition db_scenario_findById :: "db \<Rightarrow> nat \<Rightarrow> scenario option" where
  \<comment> \<open>Modelled from the spec: ScenarioRepository.findById, "findById(id) -> Scenario|absent".\<close>
  "db_scenario_findById d ident = find (\<lambda>sc. scenario_id sc = ident) (scenarios d)"

definition db_step_findByScenario :: "db \<Rightarrow> nat \<Rightarrow> scenario_step list" where
  \<comment> \<open>Modelled from the spec: ScenarioStepRepository.findByScenario,
      "findByScenario(scenario_id) -> ordered-or-unordered list of Step"; storage order is kept.\<close>
  "db_step_findByScenario d ident = map snd (filter (\<lambda>row. fst row = ident) (scenario_steps d))"

definition db_upsertBestScore :: "attempt \<Rightarrow> db \<Rightarrow> db" where
  \<comment> \<open>Modelled from the spec: AttemptRepository.upsertBestScore, "the write always occurs
      (overwrite), not conditional on score improvement"; one row per (user, scenario).\<close>
  "db_upsertBestScore a d =
     d\<lparr>attempts := AList.update (att_user_id a, att_scenario_id a)
                                  (att_score a, att_all_correct a) (attempts d)\<rparr>"

definition db_countPerfectByUserInLevel :: "db \<Rightarrow> nat \<Rightarrow> nat \<Rightarrow> nat" where
  \<comment> \<open>Modelled from the spec: AttemptRepository.countPerfectByUserInLevel, "count perfect
      (all_correct=true) attempts by this user within the scenario's level".\<close>
  "db_countPerfectByUserInLevel d u l =
     length (filter (\<lambda>row. fst (fst row) = u \<and> snd (snd row) \<and>
                            (case db_scenario_findById d (snd (fst row)) of
                               None \<Rightarrow> False
                             | Some sc \<Rightarrow> level_id sc = l))
                    (attempts d))"

definition db_countByLevel :: "db \<Rightarrow> nat \<Rightarrow> nat" where
  \<comment> \<open>Modelled from the spec: ScenarioRepository.countByLevel, "count total scenarios in that level".\<close>
  "db_countByLevel d l = length (filter (\<lambda>sc. level_id sc = l) (scenarios d))"

definition db_upsertProgress :: "user_level \<Rightarrow> db \<Rightarrow> db" where
  \<comment> \<open>Modelled from the spec: UserLevelRepository.upsertProgress, "created/updated via upsert
      semantics keyed by (user, level)"; both flags are set to the values given.\<close>
  "db_upsertProgress ul d =
     d\<lparr>user_levels := AList.update (ul_user_id ul, ul_level_id ul)
                                     (unlocked ul, completed ul) (user_levels d)\<rparr>"

definition db_findByLevel :: "db \<Rightarrow> nat \<Rightarrow> badge option" where
  \<comment> \<open>Modelled from the spec: BadgesRepository.findByLevel, "findByLevel(level_id) -> Badge|absent".\<close>
  "db_findByLevel d l = map_of (badges d) l"

definition db_findByUserAndBadge :: "db \<Rightarrow> nat \<Rightarrow> nat \<Rightarrow> user_badge option" where
  \<comment> \<open>Modelled from the spec: UserBadgeRepository.findByUserAndBadge,
      "findByUserAndBadge(user_id, badge_id) -> UserBadge|absent".\<close>
  "db_findByUserAndBadge d u b =
     find (\<lambda>row. ub_user_id row = u \<and> ub_badge_id row = b) (user_badges d)"

definition db_userBadge_create :: "user_badge \<Rightarrow> db \<Rightarrow> db" where
  \<comment> \<open>Modelled from the spec: UserBadgeRepository.create, "create({user_id, badge_id}) -> UserBadge";
      a new row is added, with no uniqueness check of its own.\<close>
  "db_userBadge_create ub d = d\<lparr>user_badges := user_badges d @ [ub]\<rparr>"

definition spec_gateways :: "db gateways" where
  \<comment> \<open>Modelled from the spec: the six repositories, as the definitions above.\<close>
  "spec_gateways =
     \<lparr>scenario_findById = db_scenario_findById,
      step_findByScenario = db_step_findByScenario,
      upsertBestScore = db_upsertBestScore,
      countPerfectByUserInLevel = db_countPerfectByUserInLevel,
      countByLevel = db_countByLevel,
      upsertProgress = db_upsertProgress,
      findByLevel = db_findByLevel,
      findByUserAndBadge = db_findByUserAndBadge,
      userBadge_create = db_userBadge_create\<rparr>"

text \<open>A run of submissions, one after the other.\<close>

fun submits :: "'s gateways \<Rightarrow> request list \<Rightarrow> 's \<Rightarrow> 's" where
  "submits g [] s = s"
| "submits g (req # reqs) s = submits g reqs (snd (snd (submit g req s)))"


section \<open>What the specification says about grading\<close>

text \<open>
  The specification's reading of a correct answer: a case-insensitive comparison of the
  answer with the step's correct action, where a missing or empty answer is never
  correct. Case-insensitive comparison is stated here through lower-casing, whereas the
  handler upper-cases both sides.
\<close>

definition lower_char :: "char \<Rightarrow> char" where
  "lower_char c =
     (let n = (of_char c :: nat)
      in if 65 \<le> n \<and> n \<le> 90 then char_of (n + 32) else c)"

definition equals_ignore_case :: "string \<Rightarrow> string \<Rightarrow> bool" where
  "equals_ignore_case a b = (map lower_char a = map lower_char b)"

definition answer_correct :: "string option list \<Rightarrow> nat \<Rightarrow> scenario_step \<Rightarrow> bool" where
  "answer_correct answers i step =
     (i < length answers \<and>
      (case answers ! i of
         None \<Rightarrow> False
       | Some a \<Rightarrow> a \<noteq> [] \<and> equals_ignore_case a (or_empty (correct_action step))))"


definition spec_correct_count :: "scenario_step list \<Rightarrow> string option list \<Rightarrow> nat" where
  \<comment> \<open>the number of positions of the ordered steps whose answer is correct\<close>
  "spec_correct_count ordered answers =
     length (filter (\<lambda>i. answer_correct answers i (ordered ! i)) [0..<length ordered])"



text \<open>The grading result that the handler hands on: score, flag and the two identifiers.\<close>

definition graded_result ::
  "scenario \<Rightarrow> nat \<Rightarrow> scenario_step list \<Rightarrow> string option list \<Rightarrow> submit_result" where
  "graded_result sc scenarioId steps answers =
     \<lparr>score = Math_round (js_mul (js_div (of_nat (correctCount steps answers))
                                          (of_nat (length steps))) 100),
      all_correct = (correctCount steps answers = length steps),
      res_level_id = level_id sc, res_scenario_id = scenarioId,
      level_progress = None, awarded_badge = None, updated_scenario = None\<rparr>"

section \<open>What the specification says about progression\<close>

text \<open>
  The level of the scenario is completed by this submission when, after the best-score
  upsert, the level holds at least one scenario and the user's perfect attempts in the
  level are as many as its scenarios.
\<close>

definition level_completed_now ::
  "'s gateways \<Rightarrow> nat \<Rightarrow> nat \<Rightarrow> nat \<Rightarrow> int \<Rightarrow> bool \<Rightarrow> 's \<Rightarrow> bool" where
  "level_completed_now g u sid l sco ac s =
     (let s1 = upsertBestScore g \<lparr>att_user_id = u, att_scenario_id = sid,
                                   att_score = sco, att_all_correct = ac\<rparr> s;
          total_in_level = countByLevel g s1 l;
          perfect_in_level = countPerfectByUserInLevel g s1 u l
      in 0 < total_in_level \<and> perfect_in_level = total_in_level)"

section \<open>Example data\<close>

definition demo_steps :: "scenario_step list" where
  "demo_steps =
     [\<lparr>step_id = 13, step_order = 3, correct_action = Some ''C''\<rparr>,
      \<lparr>step_id = 11, step_order = 1, correct_action = Some ''A''\<rparr>,
      \<lparr>step_id = 14, step_order = 4, correct_action = Some ''D''\<rparr>,
      \<lparr>step_id = 12, step_order = 2, correct_action = Some ''B''\<rparr>]"

definition demo_badge :: "nat \<Rightarrow> badge" where
  "demo_badge b = \<lparr>badge_id = b, name = ''Level badge'', description = ''Level completed'',
                   icon_url = ''/badge.png''\<rparr>"

definition demo_db :: db where
  "demo_db =
     \<lparr>scenarios = [\<lparr>scenario_id = 1, level_id = 1\<rparr>,
                   \<lparr>scenario_id = 2, level_id = 6\<rparr>,
                   \<lparr>scenario_id = 3, level_id = 2\<rparr>,
                   \<lparr>scenario_id = 4, level_id = 3\<rparr>,
                   \<lparr>scenario_id = 5, level_id = 3\<rparr>],
      scenario_steps = map (Pair 1) demo_steps @
                       [(2, \<lparr>step_id = 21, step_order = 1, correct_action = Some ''B''\<rparr>),
                        (4, \<lparr>step_id = 41, step_order = 1, correct_action = Some ''A''\<rparr>),
                        (5, \<lparr>step_id = 51, step_order = 1, correct_action = Some ''A''\<rparr>)],
      attempts = [((7, 4), (100, True))],
      badges = [(1, demo_badge 10), (6, demo_badge 60)],
      user_badges = [],
      user_levels = []\<rparr>"







section \<open>Double-precision rounding\<close>

lemma ilog2_bounds: "0 < n \<Longrightarrow> 2 ^ ilog2 n \<le> n \<and> n < 2 ^ Suc (ilog2 n)"
proof (induction n rule: ilog2.induct)
  case (1 n)
  show ?case
  proof (cases "n < 2")
    case True
    with "1.prems" have "n = 1" by simp
    then show ?thesis by (simp add: ilog2.simps)
  next
    case False
    then have pos: "0 < n div 2" by simp
    from "1.IH" [OF False pos]
    have lo: "2 ^ ilog2 (n div 2) \<le> n div 2" and hi: "n div 2 < 2 ^ Suc (ilog2 (n div 2))"
      by simp_all
    have eq: "ilog2 n = Suc (ilog2 (n div 2))"
      using False by (subst ilog2.simps) simp
    from lo have "2 * 2 ^ ilog2 (n div 2) \<le> n" by linarith
    moreover from hi have "n < 2 * 2 ^ Suc (ilog2 (n div 2))" by linarith
    ultimately show ?thesis by (simp add: eq)
  qed
qed

lemma double_exponent_ge1:
  assumes "1 \<le> (x::rat)"
  shows "2 powi (double_exponent x) \<le> x \<and> x < 2 powi (double_exponent x + 1)"
proof -
  define n where "n = nat \<lfloor>x\<rfloor>"
  have fl: "1 \<le> \<lfloor>x\<rfloor>" using assms by linarith
  then have npos: "0 < n" by (simp add: n_def)
  have e: "double_exponent x = int (ilog2 n)"
    using assms by (simp add: double_exponent_def n_def)
  from ilog2_bounds [OF npos]
  have lo: "2 ^ ilog2 n \<le> n" and hi: "n < 2 ^ Suc (ilog2 n)" by simp_all
  have nx: "of_nat n \<le> x" "x < of_nat n + 1"
    using fl by (simp_all add: n_def) linarith+
  from lo have "(of_nat (2 ^ ilog2 n) :: rat) \<le> of_nat n" by (rule of_nat_mono)
  then have "(2::rat) ^ ilog2 n \<le> of_nat n" by (simp only: of_nat_power of_nat_numeral)
  then have A: "(2::rat) ^ ilog2 n \<le> x" using nx(1) by (rule order_trans)
  from hi have "Suc n \<le> 2 ^ Suc (ilog2 n)" by simp
  then have "(of_nat (Suc n) :: rat) \<le> of_nat (2 ^ Suc (ilog2 n))" by (rule of_nat_mono)
  then have "of_nat n + 1 \<le> (2::rat) ^ Suc (ilog2 n)"
    by (simp only: of_nat_power of_nat_numeral of_nat_Suc)
  with nx(2) have B: "x < (2::rat) ^ Suc (ilog2 n)" by (rule less_le_trans)
  have "2 powi (int (ilog2 n)) = (2::rat) ^ ilog2 n" by (simp add: power_int_def)
  moreover have "2 powi (int (ilog2 n) + 1) = (2::rat) ^ Suc (ilog2 n)"
    by (simp add: power_int_def nat_add_distrib)
  ultimately show ?thesis using A B by (simp add: e)
qed


lemma double_exponent_lt1:
  assumes "0 < (x::rat)" "x < 1"
  shows "2 powi (double_exponent x) \<le> x \<and> x < 2 powi (double_exponent x + 1)"
proof -
  define y where "y = 1 / x"
  define n where "n = nat (\<lceil>y\<rceil> - 1)"
  have y1: "1 < y" using assms by (simp add: y_def)
  then have c2: "2 \<le> \<lceil>y\<rceil>" by linarith
  then have npos: "0 < n" by (simp add: n_def)
  have e: "double_exponent x = - int (Suc (ilog2 n))"
    using assms by (simp add: double_exponent_def n_def y_def)
  from ilog2_bounds [OF npos]
  have lo: "2 ^ ilog2 n \<le> n" and hi: "n < 2 ^ Suc (ilog2 n)" by simp_all
  have ny: "of_nat n < y" "y \<le> of_nat n + 1"
    using c2 by (simp_all add: n_def) linarith+
  from lo have "(of_nat (2 ^ ilog2 n) :: rat) \<le> of_nat n" by (rule of_nat_mono)
  then have "(2::rat) ^ ilog2 n \<le> of_nat n" by (simp only: of_nat_power of_nat_numeral)
  then have A: "(2::rat) ^ ilog2 n < y" using ny(1) by (rule le_less_trans)
  from hi have "Suc n \<le> 2 ^ Suc (ilog2 n)" by simp
  then have "(of_nat (Suc n) :: rat) \<le> of_nat (2 ^ Suc (ilog2 n))" by (rule of_nat_mono)
  then have "of_nat n + 1 \<le> (2::rat) ^ Suc (ilog2 n)"
    by (simp only: of_nat_power of_nat_numeral of_nat_Suc)
  with ny(2) have B: "y \<le> (2::rat) ^ Suc (ilog2 n)" by (rule order_trans)
  have xy: "x = 1 / y" using assms by (simp add: y_def)
  have p1: "2 powi (- int (Suc (ilog2 n))) = 1 / (2::rat) ^ Suc (ilog2 n)"
    by (simp only: power_int_minus power_int_of_nat inverse_eq_divide)
  have "- int (Suc (ilog2 n)) + 1 = - int (ilog2 n)" by simp
  then have p2: "2 powi (- int (Suc (ilog2 n)) + 1) = 1 / (2::rat) ^ ilog2 n"
    by (simp only: power_int_minus power_int_of_nat inverse_eq_divide)
  have "1 / (2::rat) ^ Suc (ilog2 n) \<le> 1 / y"
    using B y1 by (intro divide_left_mono) simp_all
  moreover have "1 / y < 1 / (2::rat) ^ ilog2 n"
    using A y1 by (intro divide_strict_left_mono) simp_all
  ultimately have "1 / (2::rat) ^ Suc (ilog2 n) \<le> x \<and> x < 1 / (2::rat) ^ ilog2 n"
    by (simp only: xy)
  then show ?thesis by (simp only: e p1 p2)
qed

lemma double_exponent_bounds:
  "0 < x \<Longrightarrow> 2 powi (double_exponent x) \<le> x \<and> x < 2 powi (double_exponent x + 1)"
  using double_exponent_ge1 [of x] double_exponent_lt1 [of x] by (cases "1 \<le> x") simp_all



lemma round_ties_even_of_int: "round_ties_even (of_int N) = N"
  by (simp add: round_ties_even_def)


lemma pow2_less_imp_less: "(2::rat) powi a < 2 powi b \<Longrightarrow> a < b"
proof (rule ccontr)
  assume lt: "(2::rat) powi a < 2 powi b" and "\<not> a < b"
  then have "b \<le> a" by simp
  then have "(2::rat) powi b \<le> 2 powi a" by (rule power_int_increasing) simp
  with lt show False by simp
qed

lemma to_double_pos_unfold:
  "0 < x \<Longrightarrow> to_double x =
     of_int (round_ties_even (x / 2 powi (double_exponent x - 52))) * 2 powi (double_exponent x - 52)"
  by (simp add: to_double_def Let_def)




lemma to_double_exact:
  assumes m: "0 < m" "m < 2 ^ 53" and x: "x = of_int m * 2 powi k"
  shows "to_double x = x"
proof -
  let ?e = "double_exponent x"
  let ?u = "(2::rat) powi (?e - 52)"
  have pos: "0 < x" using m by (simp add: x)
  have "(of_int m :: rat) < of_int (2 ^ 53)" using m(2) by (simp only: of_int_less_iff)
  then have "x < 2 ^ 53 * 2 powi k" by (simp add: x)
  also have "(2::rat) ^ 53 * 2 powi k = 2 powi (k + 53)"
    by (simp add: power_int_add)
  finally have xb: "x < 2 powi (k + 53)" .
  from double_exponent_bounds [OF pos] have "2 powi ?e \<le> x" by simp
  with xb have "(2::rat) powi ?e < 2 powi (k + 53)" by simp
  then have "?e < k + 53" by (rule pow2_less_imp_less)
  then have d: "0 \<le> k - (?e - 52)" by simp
  have "(2::rat) powi k = 2 powi ((k - (?e - 52)) + (?e - 52))" by simp
  also have "\<dots> = 2 powi (k - (?e - 52)) * ?u"
    by (rule power_int_add) simp
  also have "2 powi (k - (?e - 52)) = (2::rat) ^ nat (k - (?e - 52))"
    using d by (rule power_int_nonneg_exp)
  finally have pk: "(2::rat) powi k = 2 ^ nat (k - (?e - 52)) * ?u" .
  have "of_int m * (2::rat) powi k = of_int (m * 2 ^ nat (k - (?e - 52))) * ?u"
    by (subst pk) simp
  with x have xr: "x = of_int (m * 2 ^ nat (k - (?e - 52))) * ?u"
    by (rule trans)
  have "x / ?u = of_int (m * 2 ^ nat (k - (?e - 52)))"
    by (subst xr) simp
  then have "round_ties_even (x / ?u) = m * 2 ^ nat (k - (?e - 52))"
    by (simp only: round_ties_even_of_int)
  then have "to_double x = of_int (m * 2 ^ nat (k - (?e - 52))) * ?u"
    by (simp only: to_double_pos_unfold [OF pos])
  with xr show ?thesis by simp
qed



section \<open>The grading loop\<close>

lemma of_char_lt: "(of_char c :: nat) < 256"
  by (cases c) (simp add: of_char_def)

lemma lower_upper_char: "lower_char (upper_char c) = lower_char c"
proof (cases "97 \<le> (of_char c :: nat) \<and> (of_char c :: nat) \<le> 122")
  case True
  define n where "n = (of_char c :: nat)"
  have n: "97 \<le> n" "n \<le> 122" using True by (simp_all add: n_def)
  have u: "upper_char c = char_of (n - 32)"
    using n by (simp add: upper_char_def n_def)
  have "n - 32 < 256" using n by linarith
  then have o: "(n - 32) mod 256 = n - 32" by simp
  have r: "65 \<le> n - 32" "n - 32 \<le> 90" "n - 32 + 32 = n" using n by linarith+
  have "lower_char (char_of (n - 32)) = char_of n"
    by (simp add: lower_char_def Let_def o r)
  moreover have "lower_char c = c"
    using n by (simp add: lower_char_def n_def)
  ultimately show ?thesis by (simp add: u n_def)
next
  case False
  then show ?thesis by (auto simp: upper_char_def Let_def)
qed

lemma upper_lower_char: "upper_char (lower_char c) = upper_char c"
proof (cases "65 \<le> (of_char c :: nat) \<and> (of_char c :: nat) \<le> 90")
  case True
  define n where "n = (of_char c :: nat)"
  have n: "65 \<le> n" "n \<le> 90" using True by (simp_all add: n_def)
  have u: "lower_char c = char_of (n + 32)"
    using n by (simp add: lower_char_def n_def)
  have "n + 32 < 256" using n by linarith
  then have o: "(n + 32) mod 256 = n + 32" by simp
  have r: "97 \<le> n + 32" "n + 32 \<le> 122" using n by linarith+
  have "upper_char (char_of (n + 32)) = char_of n"
    by (simp add: upper_char_def Let_def o r)
  moreover have "upper_char c = c"
    using n by (simp add: upper_char_def n_def)
  ultimately show ?thesis by (simp add: u n_def)
next
  case False
  then show ?thesis by (auto simp: lower_char_def Let_def)
qed

lemma toUpperCase_eq_iff: "toUpperCase a = toUpperCase b \<longleftrightarrow> equals_ignore_case a b"
proof
  assume "toUpperCase a = toUpperCase b"
  then have "map lower_char (map upper_char a) = map lower_char (map upper_char b)"
    by (simp add: toUpperCase_def)
  then show "equals_ignore_case a b"
    by (simp add: equals_ignore_case_def lower_upper_char o_def)
next
  assume "equals_ignore_case a b"
  then have "map upper_char (map lower_char a) = map upper_char (map lower_char b)"
    by (simp add: equals_ignore_case_def)
  then show "toUpperCase a = toUpperCase b"
    by (simp add: toUpperCase_def upper_lower_char o_def)
qed

lemma toUpperCase_Nil_iff: "toUpperCase a = [] \<longleftrightarrow> a = []"
  by (simp add: toUpperCase_def)

lemma picked_iff_answer_correct:
  "(toUpperCase (or_empty (answer_at answers i)) \<noteq> [] \<and>
    toUpperCase (or_empty (answer_at answers i)) = toUpperCase (or_empty (correct_action step)))
   \<longleftrightarrow> answer_correct answers i step"
  by (auto simp: answer_correct_def answer_at_def or_empty_def toUpperCase_Nil_iff
        toUpperCase_eq_iff split: option.splits)

lemma forEach_step_count:
  "forEach_step steps i answers acc =
     acc + length (filter (\<lambda>j. answer_correct answers (i + j) (steps ! j)) [0..<length steps])"
proof (induction steps arbitrary: i acc)
  case Nil
  show ?case by simp
next
  case (Cons step rest)
  have upt: "[0..<length (step # rest)] = 0 # map Suc [0..<length rest]"
    by (simp add: upt_conv_Cons map_Suc_upt del: upt_Suc)
  have "length (filter (\<lambda>j. answer_correct answers (i + j) ((step # rest) ! j))
                 (map Suc [0..<length rest]))
        = length (filter (\<lambda>j. answer_correct answers (Suc i + j) (rest ! j)) [0..<length rest])"
    by (simp add: filter_map o_def)
  then show ?case
    by (simp only: upt forEach_step.simps Let_def picked_iff_answer_correct Cons.IH filter.simps)
       simp
qed

lemma correctCount_spec:
  "correctCount steps answers = spec_correct_count (sort_key step_order steps) answers"
  by (simp add: correctCount_def spec_correct_count_def forEach_step_count)





section \<open>The score\<close>


lemma Math_round_of_int: "Math_round (of_int k) = k"
  unfolding Math_round_def by (rule floor_unique) simp_all

lemma js_div_3_4: "js_div 3 4 = 3 / 4"
  unfolding js_div_def by (rule to_double_exact [where m = 3 and k = "- 2"]) simp_all

lemma js_mul_75: "js_mul (3 / 4) 100 = 75"
  unfolding js_mul_def
  using to_double_exact [where m = 75 and k = 0 and x = 75] by simp

lemma js_score_3_of_4: "Math_round (js_mul (js_div 3 4) 100) = 75"
  using Math_round_of_int [of 75] by (simp add: js_div_3_4 js_mul_75)

lemma js_score_all: "0 < n \<Longrightarrow> Math_round (js_mul (js_div (of_nat n) (of_nat n)) 100) = 100"
proof -
  assume "0 < n"
  then have "js_div (of_nat n) (of_nat n) = to_double 1" by (simp add: js_div_def)
  also have "to_double 1 = 1"
    using to_double_exact [where m = 1 and k = 0 and x = 1] by simp
  finally have "js_mul (js_div (of_nat n) (of_nat n)) 100 = to_double 100"
    by (simp add: js_mul_def)
  also have "to_double 100 = 100"
    using to_double_exact [where m = 100 and k = 0 and x = 100] by simp
  finally show ?thesis using Math_round_of_int [of 100] by simp
qed

lemma js_score_none: "Math_round (js_mul (js_div 0 (of_nat n)) 100) = 0"
  using Math_round_of_int [of 0] by (simp add: js_div_def js_mul_def to_double_def)

























section \<open>Properties of the handler\<close>

lemma record_progress_fields:
  "record_progress g u sc sid result s = (r, ws, s') \<Longrightarrow>
     score r = score result \<and> all_correct r = all_correct result \<and>
     res_level_id r = res_level_id result \<and> res_scenario_id r = res_scenario_id result"
  by (auto simp: record_progress_def Let_def split: if_splits prod.splits)




subsection \<open>The example scenario\<close>


lemma demo_steps_1: "getStepsByScenario spec_gateways demo_db 1 = demo_steps"
  by (simp add: getStepsByScenario_def spec_gateways_def db_step_findByScenario_def demo_db_def demo_steps_def)

lemma demo_steps_sorted:
  "sort_key step_order demo_steps =
     [\<lparr>step_id = 11, step_order = 1, correct_action = Some ''A''\<rparr>,
      \<lparr>step_id = 12, step_order = 2, correct_action = Some ''B''\<rparr>,
      \<lparr>step_id = 13, step_order = 3, correct_action = Some ''C''\<rparr>,
      \<lparr>step_id = 14, step_order = 4, correct_action = Some ''D''\<rparr>]"
  by (simp add: demo_steps_def)


section \<open>The shape of a submission\<close>

lemma submit_Inr_D:
  "submit g req s = (Inr r, ws, s') \<Longrightarrow>
     \<exists>answers sc. userAnswers req = Answers answers \<and>
        getScenario g s (params_id req) = Some sc \<and>
        getStepsByScenario g s (params_id req) \<noteq> []"
  by (auto simp: submit_def Let_def split: answers_payload.splits option.splits if_splits)

lemma submit_authenticated:
  assumes "submit g req s = (Inr r, ws, s')"
    and "user_id req = Some u" "u \<noteq> 0"
    and "getScenario g s (params_id req) = Some sc"
  shows "\<exists>result. record_progress g u sc (params_id req) result s = (r, ws, s')"
  using assms
  by (auto simp: submit_def Let_def split: answers_payload.splits option.splits if_splits prod.splits)

lemma submit_guest:
  assumes "submit g req s = (resp, ws, s')" and "\<not> truthy_id (user_id req)"
  shows "ws = [] \<and> s' = s"
  using assms
  by (auto simp: submit_def Let_def truthy_id_def
           split: answers_payload.splits option.splits if_splits prod.splits)

lemma submit_Inl_D:
  "submit g req s = (Inl e, ws, s') \<Longrightarrow> ws = [] \<and> s' = s"
  by (auto simp: submit_def Let_def split: answers_payload.splits option.splits if_splits prod.splits)

lemma unlock_next_writes:
  "fst (unlock_next g u l s) =
     (if l < 6 then [UpsertProgress \<lparr>ul_user_id = u, ul_level_id = l + 1,
                                     unlocked = True, completed = False\<rparr>] else [])"
  by (simp add: unlock_next_def Let_def)

lemma award_badge_writes:
  "UpsertProgress ul \<notin> set (fst (snd (award_badge g u l s)))"
  by (simp add: award_badge_def Let_def split: option.splits)

lemma record_progress_writes:
  assumes "record_progress g u sc sid result s = (r, ws, s')"
  shows "\<exists>rest.
      ws = UpsertBestScore \<lparr>att_user_id = u, att_scenario_id = sid,
                            att_score = score result, att_all_correct = all_correct result\<rparr>
           # UpsertProgress \<lparr>ul_user_id = u, ul_level_id = level_id sc, unlocked = True,
               completed = completedThisLevel
                 (countByLevel g (upsertBestScore g \<lparr>att_user_id = u, att_scenario_id = sid,
                     att_score = score result, att_all_correct = all_correct result\<rparr> s) (level_id sc))
                 (countPerfectByUserInLevel g (upsertBestScore g \<lparr>att_user_id = u, att_scenario_id = sid,
                     att_score = score result, att_all_correct = all_correct result\<rparr> s) u (level_id sc))\<rparr>
           # rest"
  using assms by (auto simp: record_progress_def Let_def split: if_splits prod.splits)


lemma record_progress_done:
  assumes "level_completed_now g u sid (level_id sc) (score result) (all_correct result) s"
  shows "record_progress g u sc sid result s =
     (let w1 = UpsertBestScore \<lparr>att_user_id = u, att_scenario_id = sid,
                                 att_score = score result, att_all_correct = all_correct result\<rparr>;
          w2 = UpsertProgress \<lparr>ul_user_id = u, ul_level_id = level_id sc, unlocked = True,
                                completed = True\<rparr>;
          un = unlock_next g u (level_id sc) (apply_write g w2 (apply_write g w1 s));
          aw = award_badge g u (level_id sc) (snd un)
      in (result\<lparr>level_progress := Some (LevelCompleted (level_id sc) (level_id sc + 1)),
                 awarded_badge := fst aw,
                 updated_scenario := getScenario g (snd (snd aw)) sid\<rparr>,
          [w1, w2] @ fst un @ fst (snd aw), snd (snd aw)))"
proof -
  have "completedThisLevel
          (countByLevel g (apply_write g (UpsertBestScore \<lparr>att_user_id = u, att_scenario_id = sid,
              att_score = score result, att_all_correct = all_correct result\<rparr>) s) (level_id sc))
          (countPerfectByUserInLevel g (apply_write g (UpsertBestScore \<lparr>att_user_id = u,
              att_scenario_id = sid, att_score = score result,
              att_all_correct = all_correct result\<rparr>) s) u (level_id sc)) = True"
    using assms by (simp add: level_completed_now_def completedThisLevel_def Let_def)
  then show ?thesis
    by (simp only: record_progress_def Let_def split_def if_True)
qed

lemma record_progress_not_done:
  assumes "\<not> level_completed_now g u sid (level_id sc) (score result) (all_correct result) s"
  shows "record_progress g u sc sid result s =
     (let w1 = UpsertBestScore \<lparr>att_user_id = u, att_scenario_id = sid,
                                 att_score = score result, att_all_correct = all_correct result\<rparr>;
          s1 = apply_write g w1 s;
          w2 = UpsertProgress \<lparr>ul_user_id = u, ul_level_id = level_id sc, unlocked = True,
                                completed = False\<rparr>;
          s2 = apply_write g w2 s1
      in (result\<lparr>level_progress :=
                    Some (LevelIncomplete (level_id sc)
                            (countPerfectByUserInLevel g s1 u (level_id sc))
                            (countByLevel g s1 (level_id sc))),
                 updated_scenario := getScenario g s2 sid\<rparr>,
          [w1, w2], s2))"
proof -
  have "completedThisLevel
          (countByLevel g (apply_write g (UpsertBestScore \<lparr>att_user_id = u, att_scenario_id = sid,
              att_score = score result, att_all_correct = all_correct result\<rparr>) s) (level_id sc))
          (countPerfectByUserInLevel g (apply_write g (UpsertBestScore \<lparr>att_user_id = u,
              att_scenario_id = sid, att_score = score result,
              att_all_correct = all_correct result\<rparr>) s) u (level_id sc)) = False"
    using assms by (simp add: level_completed_now_def completedThisLevel_def Let_def)
  then show ?thesis
    by (simp only: record_progress_def Let_def split_def if_False)
qed

lemma next_level_writes_done:
  assumes "record_progress g u sc sid result s = (r, ws, s')"
    and "level_completed_now g u sid (level_id sc) (score result) (all_correct result) s"
  shows "{ul. UpsertProgress ul \<in> set ws \<and> ul_level_id ul = level_id sc + 1} =
         (if level_id sc < 6
          then {\<lparr>ul_user_id = u, ul_level_id = level_id sc + 1, unlocked = True, completed = False\<rparr>}
          else {})"
  using assms(1) unfolding record_progress_done [OF assms(2)]
  by (auto simp: Let_def unlock_next_writes award_badge_writes)

lemma next_level_writes_not_done:
  assumes "record_progress g u sc sid result s = (r, ws, s')"
    and "\<not> level_completed_now g u sid (level_id sc) (score result) (all_correct result) s"
  shows "{ul. UpsertProgress ul \<in> set ws \<and> ul_level_id ul = level_id sc + 1} = {}"
  using assms(1) unfolding record_progress_not_done [OF assms(2)]
  by (auto simp: Let_def)


text \<open>
  The store a submission hands back is the initial store with the listed writes applied
  in order: every change of the store is a listed write, and every listed write has been
  carried out.
\<close>

lemma unlock_next_applied:
  "snd (unlock_next g u l s) = fold (apply_write g) (fst (unlock_next g u l s)) s"
  by (simp add: unlock_next_def Let_def)

lemma award_badge_applied:
  "snd (snd (award_badge g u l s)) = fold (apply_write g) (fst (snd (award_badge g u l s))) s"
  by (simp add: award_badge_def Let_def split: option.splits)

lemma record_progress_applied:
  assumes "record_progress g u sc sid result s = (r, ws, s')"
  shows "s' = fold (apply_write g) ws s"
proof -
  from assms have e: "s' = snd (snd (record_progress g u sc sid result s))"
    "ws = fst (snd (record_progress g u sc sid result s))" by simp_all
  show ?thesis
  proof (cases "level_completed_now g u sid (level_id sc) (score result) (all_correct result) s")
    case True
    show ?thesis
      unfolding e record_progress_done [OF True] Let_def
      by (simp add: unlock_next_applied [symmetric] award_badge_applied [symmetric]
            del: apply_write.simps)
  next
    case False
    show ?thesis
      unfolding e record_progress_not_done [OF False] Let_def by simp
  qed
qed

lemma submit_applied:
  assumes "submit g req s = (resp, ws, s')"
  shows "s' = fold (apply_write g) ws s"
proof (cases resp)
  case (Inl e)
  with assms have "ws = [] \<and> s' = s" by (simp add: submit_Inl_D)
  then show ?thesis by simp
next
  case (Inr r)
  show ?thesis
  proof (cases "truthy_id (user_id req)")
    case False
    from submit_guest [OF assms False] show ?thesis by simp
  next
    case True
    then obtain u where u: "user_id req = Some u" "u \<noteq> 0"
      by (auto simp: truthy_id_def split: option.splits)
    from assms Inr have sub: "submit g req s = (Inr r, ws, s')" by simp
    from submit_Inr_D [OF sub] obtain sc
      where sc: "getScenario g s (params_id req) = Some sc" by blast
    from submit_authenticated [OF sub u sc] obtain result
      where "record_progress g u sc (params_id req) result s = (r, ws, s')" by blast
    then show ?thesis by (rule record_progress_applied)
  qed
qed


lemmas spec_store_defs =
  spec_gateways_def getScenario_def getStepsByScenario_def db_scenario_findById_def
  db_step_findByScenario_def db_upsertBestScore_def db_countPerfectByUserInLevel_def
  db_countByLevel_def db_upsertProgress_def db_findByLevel_def db_findByUserAndBadge_def
  db_userBadge_create_def

lemmas handler_defs =
  submit_def record_progress_def unlock_next_def award_badge_def completedThisLevel_def
  correctCount_def answer_at_def or_empty_def Let_def

lemma demo_upper:
  "toUpperCase ''a'' = ''A''" "toUpperCase ''b'' = ''B''" "toUpperCase ''x'' = ''X''"
  "toUpperCase ''d'' = ''D''" "toUpperCase ''A'' = ''A''" "toUpperCase ''B'' = ''B''"
  "toUpperCase ''C'' = ''C''" "toUpperCase ''D'' = ''D''" "toUpperCase [] = []"
  by code_simp+

lemma js_score_1_of_1: "Math_round (js_mul (js_div 1 1) 100) = 100"
  using js_score_all [of 1] by simp

lemma js_score_0_of_1: "Math_round (js_mul (js_div 0 1) 100) = 0"
  using js_score_none [of 1] by simp

lemma demo_submit_level6:
  "submit spec_gateways \<lparr>params_id = 2, userAnswers = Answers [Some ''b''], user_id = Some 7\<rparr> demo_db =
     (Inr \<lparr>score = 100, all_correct = True, res_level_id = 6, res_scenario_id = 2,
           level_progress = Some (LevelCompleted 6 7),
           awarded_badge = Some (demo_badge 60),
           updated_scenario = Some \<lparr>scenario_id = 2, level_id = 6\<rparr>\<rparr>,
      [UpsertBestScore \<lparr>att_user_id = 7, att_scenario_id = 2, att_score = 100, att_all_correct = True\<rparr>,
       UpsertProgress \<lparr>ul_user_id = 7, ul_level_id = 6, unlocked = True, completed = True\<rparr>,
       CreateUserBadge \<lparr>ub_user_id = 7, ub_badge_id = 60\<rparr>],
      demo_db\<lparr>attempts := [((7, 4), (100, True)), ((7, 2), (100, True))],
               user_badges := [\<lparr>ub_user_id = 7, ub_badge_id = 60\<rparr>],
               user_levels := [((7, 6), (True, True))]\<rparr>)"
  by (simp add: handler_defs spec_store_defs demo_db_def demo_steps_def demo_badge_def
        js_score_1_of_1 demo_upper)


text \<open>
  Claim C7. A payload that is not an array is answered 400; an array for a scenario that
  does not exist is answered 404 "Scenario not found"; an array for a scenario that
  exists and has no step is answered 404 with a different message. In each case no write
  has been issued and the store is the one the handler started from, whoever the caller is.
\<close>

theorem submit_rejects:
  "((\<forall>answers. userAnswers req \<noteq> Answers answers) \<longrightarrow>
      submit g req s = (Inl (HttpError 400 ''userAnswers must be an array.''), [], s)) \<and>
   (userAnswers req = Answers answers \<and> getScenario g s (params_id req) = None \<longrightarrow>
      submit g req s = (Inl (HttpError 404 ''Scenario not found''), [], s)) \<and>
   (userAnswers req = Answers answers \<and> getScenario g s (params_id req) = Some sc \<and>
    getStepsByScenario g s (params_id req) = [] \<longrightarrow>
      submit g req s = (Inl (HttpError 404 ''No steps found for this scenario.''), [], s)) \<and>
   HttpError 404 ''Scenario not found'' \<noteq> HttpError 404 ''No steps found for this scenario.''"
  by (cases "userAnswers req") (simp_all add: submit_def Let_def)

theorem submit_rejects_witness:
  "submit spec_gateways \<lparr>params_id = 1, userAnswers = NotAnArray, user_id = Some 7\<rparr> demo_db =
     (Inl (HttpError 400 ''userAnswers must be an array.''), [], demo_db) \<and>
   submit spec_gateways \<lparr>params_id = 9, userAnswers = Answers [Some ''A''], user_id = Some 7\<rparr> demo_db =
     (Inl (HttpError 404 ''Scenario not found''), [], demo_db) \<and>
   submit spec_gateways \<lparr>params_id = 3, userAnswers = Answers [Some ''A''], user_id = Some 7\<rparr> demo_db =
     (Inl (HttpError 404 ''No steps found for this scenario.''), [], demo_db)"
proof -
  let ?r1 = "\<lparr>params_id = 1, userAnswers = NotAnArray, user_id = Some 7\<rparr>"
  let ?r2 = "\<lparr>params_id = 9, userAnswers = Answers [Some ''A''], user_id = Some 7\<rparr>"
  let ?r3 = "\<lparr>params_id = 3, userAnswers = Answers [Some ''A''], user_id = Some 7\<rparr>"
  have a: "\<forall>answers. userAnswers ?r1 \<noteq> Answers answers" by simp
  have b: "userAnswers ?r2 = Answers [Some ''A''] \<and>
           getScenario spec_gateways demo_db (params_id ?r2) = None"
    by (simp add: spec_store_defs demo_db_def)
  have c: "userAnswers ?r3 = Answers [Some ''A''] \<and>
           getScenario spec_gateways demo_db (params_id ?r3) = Some \<lparr>scenario_id = 3, level_id = 2\<rparr> \<and>
           getStepsByScenario spec_gateways demo_db (params_id ?r3) = []"
    by (simp add: spec_store_defs demo_db_def demo_steps_def)
  from a submit_rejects [of ?r1 spec_gateways demo_db]
  have 1: "submit spec_gateways ?r1 demo_db =
             (Inl (HttpError 400 ''userAnswers must be an array.''), [], demo_db)" by blast
  from b submit_rejects [of ?r2 spec_gateways demo_db "[Some ''A'']"]
  have 2: "submit spec_gateways ?r2 demo_db = (Inl (HttpError 404 ''Scenario not found''), [], demo_db)"
    by blast
  from c submit_rejects [of ?r3 spec_gateways demo_db "[Some ''A'']" "\<lparr>scenario_id = 3, level_id = 2\<rparr>"]
  have 3: "submit spec_gateways ?r3 demo_db =
             (Inl (HttpError 404 ''No steps found for this scenario.''), [], demo_db)"
    by blast
  from 1 2 3 show ?thesis by simp
qed

lemma record_progress_flag:
  assumes rp: "record_progress g u sc sid result s = (r, ws, s')"
  shows "take 2 ws =
           [UpsertBestScore \<lparr>att_user_id = u, att_scenario_id = sid,
                              att_score = score result, att_all_correct = all_correct result\<rparr>,
            UpsertProgress \<lparr>ul_user_id = u, ul_level_id = level_id sc, unlocked = True,
               completed = level_completed_now g u sid (level_id sc) (score result) (all_correct result) s\<rparr>]"
    and "level_progress r =
           Some (if level_completed_now g u sid (level_id sc) (score result) (all_correct result) s
                 then LevelCompleted (level_id sc) (level_id sc + 1)
                 else LevelIncomplete (level_id sc)
                        (countPerfectByUserInLevel g (apply_write g (UpsertBestScore
                           \<lparr>att_user_id = u, att_scenario_id = sid, att_score = score result,
                            att_all_correct = all_correct result\<rparr>) s) u (level_id sc))
                        (countByLevel g (apply_write g (UpsertBestScore
                           \<lparr>att_user_id = u, att_scenario_id = sid, att_score = score result,
                            att_all_correct = all_correct result\<rparr>) s) (level_id sc)))"
proof -
  let ?dn = "level_completed_now g u sid (level_id sc) (score result) (all_correct result) s"
  have "take 2 ws = [UpsertBestScore \<lparr>att_user_id = u, att_scenario_id = sid,
                              att_score = score result, att_all_correct = all_correct result\<rparr>,
            UpsertProgress \<lparr>ul_user_id = u, ul_level_id = level_id sc, unlocked = True,
               completed = ?dn\<rparr>] \<and>
        level_progress r =
           Some (if ?dn
                 then LevelCompleted (level_id sc) (level_id sc + 1)
                 else LevelIncomplete (level_id sc)
                        (countPerfectByUserInLevel g (apply_write g (UpsertBestScore
                           \<lparr>att_user_id = u, att_scenario_id = sid, att_score = score result,
                            att_all_correct = all_correct result\<rparr>) s) u (level_id sc))
                        (countByLevel g (apply_write g (UpsertBestScore
                           \<lparr>att_user_id = u, att_scenario_id = sid, att_score = score result,
                            att_all_correct = all_correct result\<rparr>) s) (level_id sc)))"
  proof (cases ?dn)
    case True
    from rp have "fst (snd (record_progress g u sc sid result s)) = ws"
      and "fst (record_progress g u sc sid result s) = r" by simp_all
    then show ?thesis
      unfolding record_progress_done [OF True] using True by (simp_all add: Let_def) auto
  next
    case False
    from rp have "fst (snd (record_progress g u sc sid result s)) = ws"
      and "fst (record_progress g u sc sid result s) = r" by simp_all
    then show ?thesis
      unfolding record_progress_not_done [OF False] using False by (simp_all add: Let_def) auto
  qed
  then show "take 2 ws =
           [UpsertBestScore \<lparr>att_user_id = u, att_scenario_id = sid,
                              att_score = score result, att_all_correct = all_correct result\<rparr>,
            UpsertProgress \<lparr>ul_user_id = u, ul_level_id = level_id sc, unlocked = True,
               completed = ?dn\<rparr>]"
    and "level_progress r =
           Some (if ?dn
                 then LevelCompleted (level_id sc) (level_id sc + 1)
                 else LevelIncomplete (level_id sc)
                        (countPerfectByUserInLevel g (apply_write g (UpsertBestScore
                           \<lparr>att_user_id = u, att_scenario_id = sid, att_score = score result,
                            att_all_correct = all_correct result\<rparr>) s) u (level_id sc))
                        (countByLevel g (apply_write g (UpsertBestScore
                           \<lparr>att_user_id = u, att_scenario_id = sid, att_score = score result,
                            att_all_correct = all_correct result\<rparr>) s) (level_id sc)))"
    by simp_all
qed

lemma award_badge_store:
  "snd (snd (award_badge g u l s)) = s \<or>
   (\<exists>ub. snd (snd (award_badge g u l s)) = userBadge_create g ub s)"
  by (auto simp: award_badge_def Let_def split: option.splits)

lemma unlock_next_store:
  "snd (unlock_next g u l s) =
     (if l < 6 then upsertProgress g \<lparr>ul_user_id = u, ul_level_id = l + 1,
                                      unlocked = True, completed = False\<rparr> s
      else s)"
  by (simp add: unlock_next_def Let_def)

lemma record_progress_store_done:
  assumes "record_progress g u sc sid result s = (r, ws, s')"
    and "level_completed_now g u sid (level_id sc) (score result) (all_correct result) s"
  shows "let s2 = upsertProgress g \<lparr>ul_user_id = u, ul_level_id = level_id sc,
                                     unlocked = True, completed = True\<rparr>
                    (upsertBestScore g \<lparr>att_user_id = u, att_scenario_id = sid,
                       att_score = score result, att_all_correct = all_correct result\<rparr> s);
             s3 = (if level_id sc < 6
                   then upsertProgress g \<lparr>ul_user_id = u, ul_level_id = level_id sc + 1,
                                           unlocked = True, completed = False\<rparr> s2
                   else s2)
         in s' = s3 \<or> (\<exists>ub. s' = userBadge_create g ub s3)"
proof -
  from assms(1) have "s' = snd (snd (record_progress g u sc sid result s))" by simp
  then show ?thesis
    unfolding record_progress_done [OF assms(2)] Let_def
    using award_badge_store [of g u "level_id sc"]
    by (simp add: unlock_next_store)
qed

lemma record_progress_store_not_done:
  assumes "record_progress g u sc sid result s = (r, ws, s')"
    and "\<not> level_completed_now g u sid (level_id sc) (score result) (all_correct result) s"
  shows "s' = upsertProgress g \<lparr>ul_user_id = u, ul_level_id = level_id sc,
                                   unlocked = True, completed = False\<rparr>
                (upsertBestScore g \<lparr>att_user_id = u, att_scenario_id = sid,
                   att_score = score result, att_all_correct = all_correct result\<rparr> s)"
proof -
  from assms(1) have "s' = snd (snd (record_progress g u sc sid result s))" by simp
  then show ?thesis
    unfolding record_progress_not_done [OF assms(2)] Let_def by simp
qed

lemma record_progress_counts:
  assumes rp: "record_progress g u sc sid result s = (r, ws, s')"
  shows "take 2 ws =
           [UpsertBestScore \<lparr>att_user_id = u, att_scenario_id = sid,
                              att_score = score result, att_all_correct = all_correct result\<rparr>,
            UpsertProgress \<lparr>ul_user_id = u, ul_level_id = level_id sc, unlocked = True,
               completed = level_completed_now g u sid (level_id sc) (score result) (all_correct result) s\<rparr>]"
    and "level_progress r =
           Some (if level_completed_now g u sid (level_id sc) (score result) (all_correct result) s
                 then LevelCompleted (level_id sc) (level_id sc + 1)
                 else LevelIncomplete (level_id sc)
                        (countPerfectByUserInLevel g (upsertBestScore g
                           \<lparr>att_user_id = u, att_scenario_id = sid, att_score = score result,
                            att_all_correct = all_correct result\<rparr> s) u (level_id sc))
                        (countByLevel g (upsertBestScore g
                           \<lparr>att_user_id = u, att_scenario_id = sid, att_score = score result,
                            att_all_correct = all_correct result\<rparr> s) (level_id sc)))"
  using record_progress_flag [OF rp] by simp_all

text \<open>
  Claim C2. In an authenticated submission that is graded, the first write is the
  best-score upsert and the second is the UserLevel upsert of the scenario's level, whose
  completed flag is \<open>total_in_level > 0 \<and> perfect_in_level = total_in_level\<close>; both
  counts are read from the store that \<open>upsertBestScore\<close> returned for this
  submission's score. The response reports the same flag, the flag is false whenever the
  level holds no scenario, and the store handed back is the one obtained by the two
  upserts, followed, when the flag is true, by the next-level upsert below level 6 and
  at most one badge insert.
\<close>

theorem level_completion_flag:
  assumes "submit g req s = (Inr r, ws, s')"
    and "user_id req = Some u" and "u \<noteq> 0"
    and "getScenario g s (params_id req) = Some sc"
  shows "let best = \<lparr>att_user_id = u, att_scenario_id = params_id req,
                     att_score = score r, att_all_correct = all_correct r\<rparr>;
             s1 = upsertBestScore g best s;
             total_in_level = countByLevel g s1 (level_id sc);
             perfect_in_level = countPerfectByUserInLevel g s1 u (level_id sc);
             completed_this_level = (0 < total_in_level \<and> perfect_in_level = total_in_level);
             s2 = upsertProgress g \<lparr>ul_user_id = u, ul_level_id = level_id sc,
                                     unlocked = True, completed = completed_this_level\<rparr> s1
         in take 2 ws = [UpsertBestScore best,
                         UpsertProgress \<lparr>ul_user_id = u, ul_level_id = level_id sc,
                                         unlocked = True, completed = completed_this_level\<rparr>] \<and>
            level_progress r =
              Some (if completed_this_level
                    then LevelCompleted (level_id sc) (level_id sc + 1)
                    else LevelIncomplete (level_id sc) perfect_in_level total_in_level) \<and>
            completed_this_level = completedThisLevel total_in_level perfect_in_level \<and>
            \<not> completedThisLevel 0 perfect_in_level \<and>
            (total_in_level = 0 \<longrightarrow> \<not> completed_this_level) \<and>
            (\<not> completed_this_level \<longrightarrow> s' = s2) \<and>
            (completed_this_level \<longrightarrow>
               (let s3 = (if level_id sc < 6
                          then upsertProgress g \<lparr>ul_user_id = u, ul_level_id = level_id sc + 1,
                                                  unlocked = True, completed = False\<rparr> s2
                          else s2)
                in s' = s3 \<or> (\<exists>ub. s' = userBadge_create g ub s3)))"
proof -
  from submit_authenticated [OF assms] obtain result
    where rp: "record_progress g u sc (params_id req) result s = (r, ws, s')" by blast
  from record_progress_fields [OF rp]
  have f: "score result = score r" "all_correct result = all_correct r" by simp_all
  note fl = record_progress_counts [OF rp, unfolded f]
  let ?dn = "level_completed_now g u (params_id req) (level_id sc) (score r) (all_correct r) s"
  define s1 where "s1 = upsertBestScore g \<lparr>att_user_id = u, att_scenario_id = params_id req,
                     att_score = score r, att_all_correct = all_correct r\<rparr> s"
  define tot where "tot = countByLevel g s1 (level_id sc)"
  define perf where "perf = countPerfectByUserInLevel g s1 u (level_id sc)"
  define c where "c = (0 < tot \<and> perf = tot)"
  define s2 where "s2 = upsertProgress g \<lparr>ul_user_id = u, ul_level_id = level_id sc,
                                     unlocked = True, completed = c\<rparr> s1"
  have dn: "?dn = c"
    by (simp add: level_completed_now_def Let_def c_def tot_def perf_def s1_def)
  have 1: "take 2 ws = [UpsertBestScore \<lparr>att_user_id = u, att_scenario_id = params_id req,
                     att_score = score r, att_all_correct = all_correct r\<rparr>,
                 UpsertProgress \<lparr>ul_user_id = u, ul_level_id = level_id sc,
                                 unlocked = True, completed = c\<rparr>]"
    using fl(1) by (simp only: dn)
  have 2: "level_progress r =
              Some (if c then LevelCompleted (level_id sc) (level_id sc + 1)
                    else LevelIncomplete (level_id sc) perf tot)"
    using fl(2) by (simp only: dn perf_def tot_def s1_def)
  have 3: "c = completedThisLevel tot perf" by (simp add: c_def completedThisLevel_def)
  have 4: "\<not> completedThisLevel 0 perf" by (simp add: completedThisLevel_def)
  have 5: "tot = 0 \<longrightarrow> \<not> c" by (simp add: c_def)
  have 6: "\<not> c \<longrightarrow> s' = s2"
  proof
    assume nc: "\<not> c"
    then have "\<not> level_completed_now g u (params_id req) (level_id sc) (score result) (all_correct result) s"
      by (simp add: f dn)
    from record_progress_store_not_done [OF rp this] nc show "s' = s2"
      by (simp add: f s2_def s1_def)
  qed
  have 7: "c \<longrightarrow> (let s3 = (if level_id sc < 6
                          then upsertProgress g \<lparr>ul_user_id = u, ul_level_id = level_id sc + 1,
                                                  unlocked = True, completed = False\<rparr> s2
                          else s2)
                in s' = s3 \<or> (\<exists>ub. s' = userBadge_create g ub s3))"
  proof
    assume yc: c
    then have lc: "level_completed_now g u (params_id req) (level_id sc) (score result) (all_correct result) s"
      by (simp add: f dn)
    from yc have ct: "c = True" by simp
    from record_progress_store_done [OF rp lc, unfolded f Let_def]
    show "let s3 = (if level_id sc < 6
                          then upsertProgress g \<lparr>ul_user_id = u, ul_level_id = level_id sc + 1,
                                                  unlocked = True, completed = False\<rparr> s2
                          else s2)
                in s' = s3 \<or> (\<exists>ub. s' = userBadge_create g ub s3)"
      unfolding Let_def s2_def s1_def ct .
  qed
  from 1 2 3 4 5 6 7
  have "take 2 ws = [UpsertBestScore \<lparr>att_user_id = u, att_scenario_id = params_id req,
                     att_score = score r, att_all_correct = all_correct r\<rparr>,
                 UpsertProgress \<lparr>ul_user_id = u, ul_level_id = level_id sc,
                                 unlocked = True, completed = c\<rparr>] \<and>
        level_progress r =
              Some (if c then LevelCompleted (level_id sc) (level_id sc + 1)
                    else LevelIncomplete (level_id sc) perf tot) \<and>
        c = completedThisLevel tot perf \<and>
        \<not> completedThisLevel 0 perf \<and>
        (tot = 0 \<longrightarrow> \<not> c) \<and>
        (\<not> c \<longrightarrow> s' = s2) \<and>
        (c \<longrightarrow> (let s3 = (if level_id sc < 6
                          then upsertProgress g \<lparr>ul_user_id = u, ul_level_id = level_id sc + 1,
                                                  unlocked = True, completed = False\<rparr> s2
                          else s2)
                in s' = s3 \<or> (\<exists>ub. s' = userBadge_create g ub s3)))"
    by (intro conjI)
  then show ?thesis
    unfolding Let_def s2_def c_def perf_def tot_def s1_def .
qed

text \<open>
  Claim C10. When an authenticated submission completes a level numbered 6 or more, the
  response still reports \<open>next_level_unlocked = level + 1\<close>, and no UserLevel upsert
  for that next level is among the writes.
\<close>

theorem reported_unlock_at_ceiling:
  assumes "submit g req s = (Inr r, ws, s')"
    and "user_id req = Some u" and "u \<noteq> 0"
    and "getScenario g s (params_id req) = Some sc"
    and "level_completed_now g u (params_id req) (level_id sc) (score r) (all_correct r) s"
    and "6 \<le> level_id sc"
  shows "level_progress r = Some (LevelCompleted (level_id sc) (level_id sc + 1)) \<and>
         (\<forall>ul. UpsertProgress ul \<in> set ws \<longrightarrow> ul_level_id ul \<noteq> level_id sc + 1)"
proof -
  from submit_authenticated [OF assms(1-4)] obtain result
    where rp: "record_progress g u sc (params_id req) result s = (r, ws, s')" by blast
  from record_progress_fields [OF rp]
  have f: "score result = score r" "all_correct result = all_correct r" by simp_all
  from assms(5) have dn:
    "level_completed_now g u (params_id req) (level_id sc) (score result) (all_correct result) s"
    by (simp add: f)
  from rp [unfolded record_progress_done [OF dn]]
  have "level_progress r = Some (LevelCompleted (level_id sc) (level_id sc + 1))"
    by (auto simp: Let_def)
  moreover from next_level_writes_done [OF rp dn] assms(6)
  have "{ul. UpsertProgress ul \<in> set ws \<and> ul_level_id ul = level_id sc + 1} = {}" by simp
  ultimately show ?thesis by blast
qed


section \<open>Effects on the modelled store\<close>

lemma spec_apply_write_frame:
  "scenarios (apply_write spec_gateways w d) = scenarios d"
  "scenario_steps (apply_write spec_gateways w d) = scenario_steps d"
  "badges (apply_write spec_gateways w d) = badges d"
  by (cases w; simp add: spec_store_defs)+

lemma spec_unlock_next_store:
  "snd (unlock_next spec_gateways u l d) =
     (if l < 6 then d\<lparr>user_levels := AList.update (u, l + 1) (True, False) (user_levels d)\<rparr> else d)"
  by (simp add: unlock_next_def Let_def spec_store_defs)

lemma spec_award_badge_store:
  "snd (snd (award_badge spec_gateways u l d)) =
     (case map_of (badges d) l of
        None \<Rightarrow> d
      | Some b \<Rightarrow>
          (case find (\<lambda>row. ub_user_id row = u \<and> ub_badge_id row = badge_id b) (user_badges d) of
             Some existing \<Rightarrow> d
           | None \<Rightarrow> d\<lparr>user_badges := user_badges d @ [\<lparr>ub_user_id = u, ub_badge_id = badge_id b\<rparr>]\<rparr>))"
  by (simp add: award_badge_def Let_def spec_store_defs split: option.splits)

lemma spec_record_progress_store:
  "snd (snd (record_progress spec_gateways u sc sid result d)) =
     (let d1 = db_upsertBestScore \<lparr>att_user_id = u, att_scenario_id = sid,
                 att_score = score result, att_all_correct = all_correct result\<rparr> d;
          dn = level_completed_now spec_gateways u sid (level_id sc) (score result) (all_correct result) d;
          d2 = db_upsertProgress \<lparr>ul_user_id = u, ul_level_id = level_id sc, unlocked = True,
                 completed = dn\<rparr> d1
      in if dn
         then snd (snd (award_badge spec_gateways u (level_id sc)
                          (snd (unlock_next spec_gateways u (level_id sc) d2))))
         else d2)"
proof (cases "level_completed_now spec_gateways u sid (level_id sc) (score result) (all_correct result) d")
  case True
  show ?thesis
    unfolding record_progress_done [OF True] using True
    by (simp add: Let_def spec_gateways_def)
next
  case False
  show ?thesis
    unfolding record_progress_not_done [OF False] using False
    by (simp add: Let_def spec_gateways_def)
qed


lemma spec_level_completed_now:
  "level_completed_now spec_gateways u sid l sco ac d =
     (let atts = AList.update (u, sid) (sco, ac) (attempts d);
          total = length (filter (\<lambda>sc. level_id sc = l) (scenarios d));
          perfect = length (filter (\<lambda>row. fst (fst row) = u \<and> snd (snd row) \<and>
                              (case find (\<lambda>sc. scenario_id sc = snd (fst row)) (scenarios d) of
                                 None \<Rightarrow> False
                               | Some sc \<Rightarrow> level_id sc = l)) atts)
      in 0 < total \<and> perfect = total)"
  by (simp add: level_completed_now_def spec_store_defs Let_def)

lemma spec_level_completed_now_cong:
  assumes "scenarios d' = scenarios d"
    and "AList.update (u, sid) (sco, ac) (attempts d') = AList.update (u, sid) (sco, ac) (attempts d)"
  shows "level_completed_now spec_gateways u sid l sco ac d' =
         level_completed_now spec_gateways u sid l sco ac d"
  using assms by (simp add: spec_level_completed_now)

lemma spec_record_progress_frame:
  "scenarios (snd (snd (record_progress spec_gateways u sc sid result d))) = scenarios d"
  "scenario_steps (snd (snd (record_progress spec_gateways u sc sid result d))) = scenario_steps d"
  "badges (snd (snd (record_progress spec_gateways u sc sid result d))) = badges d"
  by (simp_all add: spec_record_progress_store spec_award_badge_store spec_unlock_next_store
        db_upsertBestScore_def db_upsertProgress_def Let_def split: option.splits)

lemma spec_record_progress_attempts:
  "attempts (snd (snd (record_progress spec_gateways u sc sid result d))) =
     AList.update (u, sid) (score result, all_correct result) (attempts d)"
  by (simp add: spec_record_progress_store spec_award_badge_store spec_unlock_next_store
        db_upsertBestScore_def db_upsertProgress_def Let_def split: option.splits)

lemma spec_record_progress_user_levels:
  "user_levels (snd (snd (record_progress spec_gateways u sc sid result d))) =
     (let dn = level_completed_now spec_gateways u sid (level_id sc) (score result) (all_correct result) d;
          ul = AList.update (u, level_id sc) (True, dn) (user_levels d)
      in if dn \<and> level_id sc < 6
         then AList.update (u, level_id sc + 1) (True, False) ul
         else ul)"
  by (simp add: spec_record_progress_store spec_award_badge_store spec_unlock_next_store
        db_upsertBestScore_def db_upsertProgress_def Let_def split: option.splits)

lemma spec_record_progress_user_badges:
  "user_badges (snd (snd (record_progress spec_gateways u sc sid result d))) =
     (if level_completed_now spec_gateways u sid (level_id sc) (score result) (all_correct result) d
      then (case map_of (badges d) (level_id sc) of
              None \<Rightarrow> user_badges d
            | Some b \<Rightarrow>
                (case find (\<lambda>row. ub_user_id row = u \<and> ub_badge_id row = badge_id b) (user_badges d) of
                   Some existing \<Rightarrow> user_badges d
                 | None \<Rightarrow> user_badges d @ [\<lparr>ub_user_id = u, ub_badge_id = badge_id b\<rparr>]))
      else user_badges d)"
  by (simp add: spec_record_progress_store spec_award_badge_store spec_unlock_next_store
        db_upsertBestScore_def db_upsertProgress_def Let_def split: option.splits)


lemma find_append_last:
  "P x \<Longrightarrow> find P (xs @ [x]) \<noteq> None"
  by (induction xs) auto

lemma spec_record_progress_idem:
  "snd (snd (record_progress spec_gateways u sc sid result
      (snd (snd (record_progress spec_gateways u sc sid result d))))) =
   snd (snd (record_progress spec_gateways u sc sid result d))"
proof -
  let ?rp = "\<lambda>d. snd (snd (record_progress spec_gateways u sc sid result d))"
  let ?dn = "\<lambda>d. level_completed_now spec_gateways u sid (level_id sc) (score result) (all_correct result) d"
  have dn: "?dn (?rp d) = ?dn d"
    by (rule spec_level_completed_now_cong)
       (simp_all add: spec_record_progress_frame spec_record_progress_attempts)
  have a: "attempts (?rp (?rp d)) = attempts (?rp d)"
    by (simp add: spec_record_progress_attempts)
  have ul: "user_levels (?rp (?rp d)) = user_levels (?rp d)"
  proof (cases "?dn d \<and> level_id sc < 6")
    case True
    let ?U1 = "AList.update (u, level_id sc + 1) (True, False)
                 (AList.update (u, level_id sc) (True, True) (user_levels d))"
    have "map_of ?U1 (u, level_id sc) = Some (True, True)"
      by (simp add: update_conv')
    then have "AList.update (u, level_id sc) (True, True) ?U1 = ?U1" by (rule update_triv)
    moreover have "map_of ?U1 (u, level_id sc + 1) = Some (True, False)"
      by (simp add: update_conv')
    then have "AList.update (u, level_id sc + 1) (True, False) ?U1 = ?U1" by (rule update_triv)
    ultimately show ?thesis
      using True
      by (auto simp add: spec_record_progress_user_levels [of u sc sid result "?rp d"] dn Let_def
            spec_record_progress_user_levels [of u sc sid result d])
  next
    case False
    then show ?thesis
      by (auto simp add: spec_record_progress_user_levels [of u sc sid result "?rp d"] dn Let_def
            spec_record_progress_user_levels [of u sc sid result d])
  qed
  have ub: "user_badges (?rp (?rp d)) = user_badges (?rp d)"
  proof (cases "?dn d")
    case False
    then show ?thesis
      by (auto simp add: spec_record_progress_user_badges [of u sc sid result "?rp d"] dn
            spec_record_progress_user_badges [of u sc sid result d])
  next
    case True
    show ?thesis
    proof (cases "map_of (badges d) (level_id sc)")
      case None
      with True show ?thesis
        by (simp add: spec_record_progress_user_badges [of u sc sid result "?rp d"] dn
              spec_record_progress_frame)
    next
      case (Some b)
      let ?P = "\<lambda>row. ub_user_id row = u \<and> ub_badge_id row = badge_id b"
      have found: "find ?P (user_badges (?rp d)) \<noteq> None"
      proof (cases "find ?P (user_badges d)")
        case None
        with True Some have "user_badges (?rp d) = user_badges d @ [\<lparr>ub_user_id = u, ub_badge_id = badge_id b\<rparr>]"
          by (simp add: spec_record_progress_user_badges)
        then show ?thesis by (simp add: find_append_last)
      next
        case (Some existing)
        with True \<open>map_of (badges d) (level_id sc) = Some b\<close>
        have "user_badges (?rp d) = user_badges d"
          by (simp add: spec_record_progress_user_badges)
        with Some show ?thesis by simp
      qed
      with True Some show ?thesis
        by (auto simp add: spec_record_progress_user_badges [of u sc sid result "?rp d"] dn
              spec_record_progress_frame split: option.splits)
    qed
  qed
  show ?thesis
    by (rule db.equality) (simp_all add: spec_record_progress_frame a ul ub)
qed


lemma submit_cases:
  "submit g req s =
     (case userAnswers req of
        Answers answers \<Rightarrow>
          (case getScenario g s (params_id req) of
             None \<Rightarrow> (Inl (HttpError 404 ''Scenario not found''), [], s)
           | Some sc \<Rightarrow>
               if getStepsByScenario g s (params_id req) = []
               then (Inl (HttpError 404 ''No steps found for this scenario.''), [], s)
               else if truthy_id (user_id req)
                    then (case record_progress g (the (user_id req)) sc (params_id req)
                                 (graded_result sc (params_id req)
                                    (getStepsByScenario g s (params_id req)) answers) s of
                            (r, ws, s') \<Rightarrow> (Inr r, ws, s'))
                    else (Inr (graded_result sc (params_id req)
                                 (getStepsByScenario g s (params_id req)) answers), [], s))
      | _ \<Rightarrow> (Inl (HttpError 400 ''userAnswers must be an array.''), [], s))"
  by (simp add: submit_def graded_result_def truthy_id_def Let_def
           split: answers_payload.splits option.splits)

lemma submit_store:
  "snd (snd (submit g req s)) =
     (case userAnswers req of
        Answers answers \<Rightarrow>
          (case getScenario g s (params_id req) of
             None \<Rightarrow> s
           | Some sc \<Rightarrow>
               if getStepsByScenario g s (params_id req) \<noteq> [] \<and> truthy_id (user_id req)
               then snd (snd (record_progress g (the (user_id req)) sc (params_id req)
                                 (graded_result sc (params_id req)
                                    (getStepsByScenario g s (params_id req)) answers) s))
               else s)
      | _ \<Rightarrow> s)"
  by (simp add: submit_cases split_def split: answers_payload.splits option.splits)

lemma spec_reads_frame:
  assumes "scenarios d' = scenarios d" and "scenario_steps d' = scenario_steps d"
  shows "getScenario spec_gateways d' i = getScenario spec_gateways d i"
    and "getStepsByScenario spec_gateways d' i = getStepsByScenario spec_gateways d i"
  using assms by (simp_all add: spec_store_defs)

text \<open>
  Claim C5. On the modelled store, submitting the same request a second time, with
  nothing in between, leaves the store as the first submission left it: the same Attempt
  rows, the same UserLevel rows and the same UserBadge rows.
\<close>

theorem submission_idempotent:
  "let d1 = snd (snd (submit spec_gateways req d));
       d2 = snd (snd (submit spec_gateways req d1))
   in d2 = d1 \<and> attempts d2 = attempts d1 \<and> user_levels d2 = user_levels d1 \<and>
      user_badges d2 = user_badges d1"
proof -
  let ?F = "\<lambda>d. snd (snd (submit spec_gateways req d))"
  have "?F (?F d) = ?F d"
  proof (cases "?F d = d")
    case True
    then show ?thesis by simp
  next
    case False
    then obtain answers sc where
      a: "userAnswers req = Answers answers"
      and sc: "getScenario spec_gateways d (params_id req) = Some sc"
      and st: "getStepsByScenario spec_gateways d (params_id req) \<noteq> []"
      and u: "truthy_id (user_id req)"
      by (auto simp: submit_store split: answers_payload.splits option.splits if_splits)
    let ?res = "graded_result sc (params_id req)
                  (getStepsByScenario spec_gateways d (params_id req)) answers"
    let ?rp = "\<lambda>d. snd (snd (record_progress spec_gateways (the (user_id req)) sc (params_id req) ?res d))"
    have F: "?F d = ?rp d" using a sc st u by (simp add: submit_store)
    have sc': "getScenario spec_gateways (?rp d) (params_id req) = Some sc"
      using sc spec_reads_frame(1) [of "?rp d" d] by (simp add: spec_record_progress_frame)
    have st': "getStepsByScenario spec_gateways (?rp d) (params_id req) =
               getStepsByScenario spec_gateways d (params_id req)"
      using spec_reads_frame(2) [of "?rp d" d] by (simp add: spec_record_progress_frame)
    have "?F (?rp d) = ?rp (?rp d)"
      using a sc' st' st u by (simp add: submit_store [of spec_gateways req "?rp d"])
    also have "\<dots> = ?rp d" by (rule spec_record_progress_idem)
    finally show ?thesis by (simp only: F)
  qed
  then show ?thesis by (simp add: Let_def)
qed


subsection \<open>The next level\<close>

lemma spec_next_level_row:
  assumes rp: "record_progress spec_gateways u sc sid result d = (r, ws, d')"
  shows "map_of (user_levels d') (u', level_id sc + 1) =
     (if u' = u \<and> level_completed_now spec_gateways u sid (level_id sc) (score result) (all_correct result) d
          \<and> level_id sc < 6
      then Some (True, False)
      else map_of (user_levels d) (u', level_id sc + 1))"
proof -
  from rp have "d' = snd (snd (record_progress spec_gateways u sc sid result d))" by simp
  then show ?thesis
    by (simp add: spec_record_progress_user_levels Let_def update_conv')
qed

lemma spec_submit_next_level_row:
  assumes sub: "submit spec_gateways req d = (resp, ws, d')"
    and sc: "getScenario spec_gateways d (params_id req) = Some sc"
  shows "map_of (user_levels d') (u', level_id sc + 1) =
     (if (\<exists>r. resp = Inr r \<and> user_id req = Some u' \<and> u' \<noteq> 0 \<and>
               level_completed_now spec_gateways u' (params_id req) (level_id sc)
                 (score r) (all_correct r) d \<and> level_id sc < 6)
      then Some (True, False)
      else map_of (user_levels d) (u', level_id sc + 1))"
proof (cases resp)
  case (Inl e)
  with sub have "submit spec_gateways req d = (Inl e, ws, d')" by simp
  then have "d' = d" by (simp add: submit_Inl_D)
  with Inl show ?thesis by simp
next
  case (Inr r)
  show ?thesis
  proof (cases "truthy_id (user_id req)")
    case False
    from submit_guest [OF sub False] have "d' = d" by simp
    moreover from False have "\<not> (user_id req = Some u' \<and> u' \<noteq> 0)"
      by (auto simp: truthy_id_def)
    ultimately show ?thesis by auto
  next
    case True
    then obtain u where u: "user_id req = Some u" "u \<noteq> 0"
      by (auto simp: truthy_id_def split: option.splits)
    from sub Inr have sub': "submit spec_gateways req d = (Inr r, ws, d')" by simp
    from submit_authenticated [OF sub' u sc] obtain result
      where rp: "record_progress spec_gateways u sc (params_id req) result d = (r, ws, d')" by blast
    from record_progress_fields [OF rp]
    have f: "score result = score r" "all_correct result = all_correct r" by simp_all
    from spec_next_level_row [OF rp, of u'] Inr u show ?thesis
      by (auto simp: f)
  qed
qed

text \<open>
  Claim C4. The UserLevel upserts of a submission for the level after the scenario's level
  are exactly one, with unlocked true and completed false for this user, when the
  submission is graded, the caller is authenticated, the level is completed by this
  submission and the level is below 6; the store handed back is then the result of that
  upsert, applied after the best-score upsert and the upsert of the current level, with
  at most a badge insert after it. In every other case there is no such upsert in the
  list of writes, and the store handed back is the initial one or the result of the
  best-score upsert and the upsert of the current level, with at most a badge insert.
  On the modelled store the UserLevel row of (user, next level) is unlocked and not
  completed after the submission in the first case, and every row of the next level is
  what it was before in every other case.
\<close>

theorem next_level_unlock:
  assumes "submit g req s = (resp, ws, s')"
    and "getScenario g s (params_id req) = Some sc"
  shows "(\<forall>r u. resp = Inr r \<and> user_id req = Some u \<and> u \<noteq> 0 \<and>
            level_completed_now g u (params_id req) (level_id sc) (score r) (all_correct r) s \<and>
            level_id sc < 6 \<longrightarrow>
            {ul. UpsertProgress ul \<in> set ws \<and> ul_level_id ul = level_id sc + 1} =
              {\<lparr>ul_user_id = u, ul_level_id = level_id sc + 1, unlocked = True, completed = False\<rparr>} \<and>
            (let s2 = upsertProgress g \<lparr>ul_user_id = u, ul_level_id = level_id sc,
                                         unlocked = True, completed = True\<rparr>
                        (upsertBestScore g \<lparr>att_user_id = u, att_scenario_id = params_id req,
                           att_score = score r, att_all_correct = all_correct r\<rparr> s);
                 s3 = upsertProgress g \<lparr>ul_user_id = u, ul_level_id = level_id sc + 1,
                                         unlocked = True, completed = False\<rparr> s2
             in s' = s3 \<or> (\<exists>ub. s' = userBadge_create g ub s3))) \<and>
         (\<not> (\<exists>r u. resp = Inr r \<and> user_id req = Some u \<and> u \<noteq> 0 \<and>
            level_completed_now g u (params_id req) (level_id sc) (score r) (all_correct r) s \<and>
            level_id sc < 6) \<longrightarrow>
            {ul. UpsertProgress ul \<in> set ws \<and> ul_level_id ul = level_id sc + 1} = {} \<and>
            (s' = s \<or>
             (\<exists>r u. resp = Inr r \<and> user_id req = Some u \<and> u \<noteq> 0 \<and>
                (let s2 = upsertProgress g
                            \<lparr>ul_user_id = u, ul_level_id = level_id sc, unlocked = True,
                             completed = level_completed_now g u (params_id req) (level_id sc)
                                           (score r) (all_correct r) s\<rparr>
                            (upsertBestScore g \<lparr>att_user_id = u, att_scenario_id = params_id req,
                               att_score = score r, att_all_correct = all_correct r\<rparr> s)
                 in s' = s2 \<or> (\<exists>ub. s' = userBadge_create g ub s2))))) \<and>
         (\<forall>d resp0 ws0 d' sc0 u'.
            submit spec_gateways req d = (resp0, ws0, d') \<and>
            getScenario spec_gateways d (params_id req) = Some sc0 \<longrightarrow>
            map_of (user_levels d') (u', level_id sc0 + 1) =
              (if (\<exists>r. resp0 = Inr r \<and> user_id req = Some u' \<and> u' \<noteq> 0 \<and>
                        level_completed_now spec_gateways u' (params_id req) (level_id sc0)
                          (score r) (all_correct r) d \<and> level_id sc0 < 6)
               then Some (True, False)
               else map_of (user_levels d) (u', level_id sc0 + 1)))"
proof -
  let ?N = "{ul. UpsertProgress ul \<in> set ws \<and> ul_level_id ul = level_id sc + 1}"
  let ?cond = "\<exists>r u. resp = Inr r \<and> user_id req = Some u \<and> u \<noteq> 0 \<and>
            level_completed_now g u (params_id req) (level_id sc) (score r) (all_correct r) s \<and>
            level_id sc < 6"
  have none: "ws = [] \<Longrightarrow> ?N = {}" by simp
  have spec: "\<forall>d resp0 ws0 d' sc0 u'.
            submit spec_gateways req d = (resp0, ws0, d') \<and>
            getScenario spec_gateways d (params_id req) = Some sc0 \<longrightarrow>
            map_of (user_levels d') (u', level_id sc0 + 1) =
              (if (\<exists>r. resp0 = Inr r \<and> user_id req = Some u' \<and> u' \<noteq> 0 \<and>
                        level_completed_now spec_gateways u' (params_id req) (level_id sc0)
                          (score r) (all_correct r) d \<and> level_id sc0 < 6)
               then Some (True, False)
               else map_of (user_levels d) (u', level_id sc0 + 1))"
    using spec_submit_next_level_row by blast
  have main: "(\<forall>r u. resp = Inr r \<and> user_id req = Some u \<and> u \<noteq> 0 \<and>
            level_completed_now g u (params_id req) (level_id sc) (score r) (all_correct r) s \<and>
            level_id sc < 6 \<longrightarrow>
            ?N = {\<lparr>ul_user_id = u, ul_level_id = level_id sc + 1, unlocked = True, completed = False\<rparr>} \<and>
            (let s2 = upsertProgress g \<lparr>ul_user_id = u, ul_level_id = level_id sc,
                                         unlocked = True, completed = True\<rparr>
                        (upsertBestScore g \<lparr>att_user_id = u, att_scenario_id = params_id req,
                           att_score = score r, att_all_correct = all_correct r\<rparr> s);
                 s3 = upsertProgress g \<lparr>ul_user_id = u, ul_level_id = level_id sc + 1,
                                         unlocked = True, completed = False\<rparr> s2
             in s' = s3 \<or> (\<exists>ub. s' = userBadge_create g ub s3))) \<and>
         (\<not> ?cond \<longrightarrow>
            ?N = {} \<and>
            (s' = s \<or>
             (\<exists>r u. resp = Inr r \<and> user_id req = Some u \<and> u \<noteq> 0 \<and>
                (let s2 = upsertProgress g
                            \<lparr>ul_user_id = u, ul_level_id = level_id sc, unlocked = True,
                             completed = level_completed_now g u (params_id req) (level_id sc)
                                           (score r) (all_correct r) s\<rparr>
                            (upsertBestScore g \<lparr>att_user_id = u, att_scenario_id = params_id req,
                               att_score = score r, att_all_correct = all_correct r\<rparr> s)
                 in s' = s2 \<or> (\<exists>ub. s' = userBadge_create g ub s2)))))"
  proof (cases resp)
    case (Inl e)
    with assms(1) have "submit g req s = (Inl e, ws, s')" by simp
    then have "ws = [] \<and> s' = s" by (rule submit_Inl_D)
    with none have "?N = {}" "s' = s" by simp_all
    with Inl show ?thesis by simp
  next
    case (Inr r)
    show ?thesis
    proof (cases "truthy_id (user_id req)")
      case False
      from submit_guest [OF assms(1) False] have "ws = []" "s' = s" by simp_all
      with none have n: "?N = {}" "s' = s" by simp_all
      from False have "\<And>u. user_id req = Some u \<Longrightarrow> u = 0"
        by (simp add: truthy_id_def)
      with n show ?thesis by blast
    next
      case True
      then obtain u where u: "user_id req = Some u" "u \<noteq> 0"
        by (auto simp: truthy_id_def split: option.splits)
      from assms(1) Inr have sub: "submit g req s = (Inr r, ws, s')" by simp
      from submit_authenticated [OF sub u assms(2)] obtain result
        where rp: "record_progress g u sc (params_id req) result s = (r, ws, s')" by blast
      from record_progress_fields [OF rp]
      have f: "score result = score r" "all_correct result = all_correct r" by simp_all
      let ?C = "level_completed_now g u (params_id req) (level_id sc) (score r) (all_correct r) s"
      let ?s2 = "\<lambda>c. upsertProgress g \<lparr>ul_user_id = u, ul_level_id = level_id sc,
                                         unlocked = True, completed = c\<rparr>
                        (upsertBestScore g \<lparr>att_user_id = u, att_scenario_id = params_id req,
                           att_score = score r, att_all_correct = all_correct r\<rparr> s)"
      let ?s3 = "upsertProgress g \<lparr>ul_user_id = u, ul_level_id = level_id sc + 1,
                                         unlocked = True, completed = False\<rparr> (?s2 True)"
      have key: "?N = (if ?C \<and> level_id sc < 6
                       then {\<lparr>ul_user_id = u, ul_level_id = level_id sc + 1,
                              unlocked = True, completed = False\<rparr>} else {})"
      proof (cases ?C)
        case True
        then have "level_completed_now g u (params_id req) (level_id sc)
                     (score result) (all_correct result) s" by (simp add: f)
        from next_level_writes_done [OF rp this] True show ?thesis by simp
      next
        case False
        then have "\<not> level_completed_now g u (params_id req) (level_id sc)
                     (score result) (all_correct result) s" by (simp add: f)
        from next_level_writes_not_done [OF rp this] False show ?thesis by simp
      qed
      have store: "if ?C \<and> level_id sc < 6
                   then s' = ?s3 \<or> (\<exists>ub. s' = userBadge_create g ub ?s3)
                   else s' = ?s2 ?C \<or> (\<exists>ub. s' = userBadge_create g ub (?s2 ?C))"
      proof (cases ?C)
        case True
        then have "level_completed_now g u (params_id req) (level_id sc)
                     (score result) (all_correct result) s" by (simp add: f)
        from record_progress_store_done [OF rp this, unfolded f Let_def] True
        show ?thesis by (cases "level_id sc < 6") simp_all
      next
        case False
        then have "\<not> level_completed_now g u (params_id req) (level_id sc)
                     (score result) (all_correct result) s" by (simp add: f)
        from record_progress_store_not_done [OF rp this, unfolded f] False
        show ?thesis by simp
      qed
      show ?thesis
      proof (intro conjI allI impI)
        fix r' u'
        assume a: "resp = Inr r' \<and> user_id req = Some u' \<and> u' \<noteq> 0 \<and>
            level_completed_now g u' (params_id req) (level_id sc) (score r') (all_correct r') s \<and>
            level_id sc < 6"
        with Inr u have e: "r' = r" "u' = u" by simp_all
        with a key show "?N = {\<lparr>ul_user_id = u', ul_level_id = level_id sc + 1,
                                 unlocked = True, completed = False\<rparr>}"
          by simp
        from a e store
        show "let s2 = upsertProgress g \<lparr>ul_user_id = u', ul_level_id = level_id sc,
                                         unlocked = True, completed = True\<rparr>
                        (upsertBestScore g \<lparr>att_user_id = u', att_scenario_id = params_id req,
                           att_score = score r', att_all_correct = all_correct r'\<rparr> s);
                 s3 = upsertProgress g \<lparr>ul_user_id = u', ul_level_id = level_id sc + 1,
                                         unlocked = True, completed = False\<rparr> s2
             in s' = s3 \<or> (\<exists>ub. s' = userBadge_create g ub s3)"
          by (simp add: Let_def)
      next
        assume n: "\<not> ?cond"
        with Inr u have nc: "\<not> (?C \<and> level_id sc < 6)" by blast
        with key show "?N = {}" by simp
        from nc store have "s' = ?s2 ?C \<or> (\<exists>ub. s' = userBadge_create g ub (?s2 ?C))"
          by simp
        with Inr u
        have "\<exists>r u. resp = Inr r \<and> user_id req = Some u \<and> u \<noteq> 0 \<and>
                (let s2 = upsertProgress g
                            \<lparr>ul_user_id = u, ul_level_id = level_id sc, unlocked = True,
                             completed = level_completed_now g u (params_id req) (level_id sc)
                                           (score r) (all_correct r) s\<rparr>
                            (upsertBestScore g \<lparr>att_user_id = u, att_scenario_id = params_id req,
                               att_score = score r, att_all_correct = all_correct r\<rparr> s)
                 in s' = s2 \<or> (\<exists>ub. s' = userBadge_create g ub s2))"
          unfolding Let_def by (intro exI [of _ r] exI [of _ u] conjI) simp_all
        then show "s' = s \<or>
             (\<exists>r u. resp = Inr r \<and> user_id req = Some u \<and> u \<noteq> 0 \<and>
                (let s2 = upsertProgress g
                            \<lparr>ul_user_id = u, ul_level_id = level_id sc, unlocked = True,
                             completed = level_completed_now g u (params_id req) (level_id sc)
                                           (score r) (all_correct r) s\<rparr>
                            (upsertBestScore g \<lparr>att_user_id = u, att_scenario_id = params_id req,
                               att_score = score r, att_all_correct = all_correct r\<rparr> s)
                 in s' = s2 \<or> (\<exists>ub. s' = userBadge_create g ub s2)))" ..
      qed
    qed
  qed
  from main spec show ?thesis by (rule conjI [THEN iffD1 [OF conj_assoc]])
qed


section \<open>Order of the steps\<close>

lemma answer_correct_take:
  "i < n \<Longrightarrow> answer_correct (take n answers) i step = answer_correct answers i step"
  by (simp add: answer_correct_def)

lemma spec_correct_count_take:
  "spec_correct_count ordered (take (length ordered) answers) = spec_correct_count ordered answers"
  unfolding spec_correct_count_def
  by (rule arg_cong [where f = length], rule filter_cong) (simp_all add: answer_correct_take)

lemma answer_missing_or_empty:
  "length answers \<le> i \<or> answers ! i = None \<or> answers ! i = Some [] \<Longrightarrow>
     \<not> answer_correct answers i step"
  by (auto simp: answer_correct_def)

lemma filter_key_le1:
  "distinct (map f zs) \<Longrightarrow> length (filter (\<lambda>x. f x = k) zs) \<le> 1"
proof (induction zs)
  case Nil
  show ?case by simp
next
  case (Cons a zs)
  show ?case
  proof (cases "f a = k")
    case True
    with Cons.prems have "\<forall>x \<in> set zs. f x \<noteq> k" by (auto simp: image_iff)
    then have "filter (\<lambda>x. f x = k) zs = []" by (simp add: filter_empty_conv)
    with True show ?thesis by simp
  next
    case False
    with Cons show ?thesis by simp
  qed
qed

lemma filter_key_unique:
  assumes "distinct (map f xs)" and "mset ys = mset xs"
  shows "filter (\<lambda>x. f x = k) ys = filter (\<lambda>x. f x = k) xs"
proof -
  have "mset (map f ys) = mset (map f xs)" using assms(2) by simp
  then have dy: "distinct (map f ys)"
    using assms(1) mset_eq_imp_distinct_iff by blast
  have m: "mset (filter (\<lambda>x. f x = k) ys) = mset (filter (\<lambda>x. f x = k) xs)"
    using assms(2) by simp
  from filter_key_le1 [OF dy, of k] filter_key_le1 [OF assms(1), of k] m show ?thesis
    by (cases "filter (\<lambda>x. f x = k) ys"; cases "filter (\<lambda>x. f x = k) xs") auto
qed

lemma sort_key_permutation:
  assumes "distinct (map f xs)" and "mset ys = mset xs"
  shows "sort_key f ys = sort_key f xs"
proof (rule properties_for_sort_key)
  show "mset (sort_key f xs) = mset ys" using assms(2) by simp
  show "sorted (map f (sort_key f xs))" by simp
  fix k assume "k \<in> set (sort_key f xs)"
  have "filter (\<lambda>x. f k = f x) (sort_key f xs) = filter (\<lambda>x. f x = f k) (sort_key f xs)"
    by (rule filter_cong) auto
  also have "\<dots> = filter (\<lambda>x. f x = f k) xs" by (rule sort_key_stable)
  also have "\<dots> = filter (\<lambda>x. f x = f k) ys" by (rule filter_key_unique [OF assms, symmetric])
  also have "\<dots> = filter (\<lambda>x. f k = f x) ys" by (rule filter_cong) auto
  finally show "filter (\<lambda>x. f k = f x) (sort_key f xs) = filter (\<lambda>x. f k = f x) ys" .
qed


text \<open>
  Claim C6. Whatever the order in which the steps are stored, grading orders them by
  \<open>step_order\<close>, ascending, and counts the positions \<open>i\<close> below the number of steps
  at which the answer at index \<open>i\<close> is correct for the step at ordered position \<open>i\<close>.
  Answers past the number of steps do not matter; a missing, null or empty answer is
  never correct; with distinct \<open>step_order\<close> values the count does not depend on the
  storage order; and the handler answers 200 for every array of answers.
\<close>

theorem grading_positional:
  "sorted (map step_order (sort_key step_order steps)) \<and>
   mset (sort_key step_order steps) = mset steps \<and>
   correctCount steps answers =
     length (filter (\<lambda>i. answer_correct answers i (sort_key step_order steps ! i))
                    [0..<length steps]) \<and>
   correctCount steps answers = correctCount steps (take (length steps) answers) \<and>
   (length answers \<le> i \<or> answers ! i = None \<or> answers ! i = Some [] \<longrightarrow>
      \<not> answer_correct answers i step) \<and>
   (mset steps' = mset steps \<and> distinct (map step_order steps) \<longrightarrow>
      correctCount steps' answers = correctCount steps answers) \<and>
   (userAnswers req = Answers answers \<and> getScenario g s (params_id req) = Some sc \<and>
    getStepsByScenario g s (params_id req) = steps \<and> steps \<noteq> [] \<longrightarrow>
      (\<exists>r ws s'. submit g req s = (Inr r, ws, s') \<and>
                  all_correct r = (correctCount steps answers = length steps)))"
proof (intro conjI impI)
  show "sorted (map step_order (sort_key step_order steps))" by simp
  show "mset (sort_key step_order steps) = mset steps" by simp
  show "correctCount steps answers =
     length (filter (\<lambda>i. answer_correct answers i (sort_key step_order steps ! i))
                    [0..<length steps])"
    by (simp add: correctCount_spec spec_correct_count_def)
  show "correctCount steps answers = correctCount steps (take (length steps) answers)"
    using spec_correct_count_take [of "sort_key step_order steps" answers]
    by (simp add: correctCount_spec)
  show "\<not> answer_correct answers i step"
    if "length answers \<le> i \<or> answers ! i = None \<or> answers ! i = Some []"
    using that by (rule answer_missing_or_empty)
  show "correctCount steps' answers = correctCount steps answers"
    if "mset steps' = mset steps \<and> distinct (map step_order steps)"
    using that sort_key_permutation [of step_order steps steps']
    by (simp add: correctCount_def)
  show "\<exists>r ws s'. submit g req s = (Inr r, ws, s') \<and>
                  all_correct r = (correctCount steps answers = length steps)"
    if h: "userAnswers req = Answers answers \<and> getScenario g s (params_id req) = Some sc \<and>
           getStepsByScenario g s (params_id req) = steps \<and> steps \<noteq> []"
  proof (cases "truthy_id (user_id req)")
    case False
    with h show ?thesis by (simp add: submit_cases graded_result_def)
  next
    case True
    let ?res = "graded_result sc (params_id req) steps answers"
    obtain r ws s' where rp:
      "record_progress g (the (user_id req)) sc (params_id req) ?res s = (r, ws, s')"
      by (cases "record_progress g (the (user_id req)) sc (params_id req) ?res s") auto
    from record_progress_fields [OF rp]
    have "all_correct r = all_correct ?res" by simp
    with h True rp show ?thesis by (simp add: submit_cases graded_result_def)
  qed
qed


section \<open>The route and the guest branch\<close>








lemma record_progress_first_write:
  assumes "record_progress g u sc sid result s = (r, ws, s')"
  shows "\<exists>rest. ws = UpsertBestScore \<lparr>att_user_id = u, att_scenario_id = sid,
                         att_score = score result, att_all_correct = all_correct result\<rparr> # rest"
  using record_progress_writes [OF assms] by blast

text \<open>
  Claim C8. In an authenticated submission that is graded, the first write is the
  best-score upsert carrying the score and the flag just computed, whatever the store
  holds; on the modelled store the Attempt row of the pair then holds exactly these
  values. \<open>saveBestScore\<close> likewise issues the upsert without a comparison.
\<close>

theorem best_score_always_written:
  assumes "submit g req s = (Inr r, ws, s')"
    and "user_id req = Some u" and "u \<noteq> 0"
  shows "(\<exists>rest. ws = UpsertBestScore \<lparr>att_user_id = u, att_scenario_id = params_id req,
                          att_score = score r, att_all_correct = all_correct r\<rparr> # rest) \<and>
         (\<forall>d r0 ws0 d'. submit spec_gateways req d = (Inr r0, ws0, d') \<longrightarrow>
            map_of (attempts d') (u, params_id req) = Some (score r0, all_correct r0)) \<and>
         (\<forall>data. saveBestScore g data s = ([UpsertBestScore data], upsertBestScore g data s))"
proof (intro conjI allI impI)
  from submit_Inr_D [OF assms(1)] obtain sc
    where sc: "getScenario g s (params_id req) = Some sc" by blast
  from submit_authenticated [OF assms sc] obtain result
    where rp: "record_progress g u sc (params_id req) result s = (r, ws, s')" by blast
  from record_progress_fields [OF rp]
  have f: "score result = score r" "all_correct result = all_correct r" by simp_all
  from record_progress_first_write [OF rp]
  show "\<exists>rest. ws = UpsertBestScore \<lparr>att_user_id = u, att_scenario_id = params_id req,
                          att_score = score r, att_all_correct = all_correct r\<rparr> # rest"
    by (simp add: f)
next
  fix d r0 ws0 d'
  assume sub: "submit spec_gateways req d = (Inr r0, ws0, d')"
  from submit_Inr_D [OF sub] obtain sc
    where sc: "getScenario spec_gateways d (params_id req) = Some sc" by blast
  from submit_authenticated [OF sub assms(2,3) sc] obtain result
    where rp: "record_progress spec_gateways u sc (params_id req) result d = (r0, ws0, d')" by blast
  from record_progress_fields [OF rp]
  have f: "score result = score r0" "all_correct result = all_correct r0" by simp_all
  from rp have "d' = snd (snd (record_progress spec_gateways u sc (params_id req) result d))"
    by simp
  then have "attempts d' = AList.update (u, params_id req) (score r0, all_correct r0) (attempts d)"
    by (simp add: spec_record_progress_attempts f)
  then show "map_of (attempts d') (u, params_id req) = Some (score r0, all_correct r0)"
    by (simp add: update_conv')
next
  fix data
  show "saveBestScore g data s = ([UpsertBestScore data], upsertBestScore g data s)"
    by (simp add: saveBestScore_def Let_def)
qed


section \<open>The badge award on the modelled store\<close>

lemma spec_award_badge:
  "award_badge spec_gateways u l d =
     (case db_findByLevel d l of
        None \<Rightarrow> (None, [], d)
      | Some b \<Rightarrow>
          (case db_findByUserAndBadge d u (badge_id b) of
             Some existing \<Rightarrow> (None, [], d)
           | None \<Rightarrow> (Some b, [CreateUserBadge \<lparr>ub_user_id = u, ub_badge_id = badge_id b\<rparr>],
                      d\<lparr>user_badges := user_badges d @ [\<lparr>ub_user_id = u, ub_badge_id = badge_id b\<rparr>]\<rparr>)))"
  by (simp add: award_badge_def Let_def spec_gateways_def db_userBadge_create_def
           split: option.splits)

lemma spec_badge_reads_frame:
  assumes "badges d' = badges d" and "user_badges d' = user_badges d"
  shows "db_findByLevel d' l = db_findByLevel d l"
    and "db_findByUserAndBadge d' u b = db_findByUserAndBadge d u b"
  using assms by (simp_all add: db_findByLevel_def db_findByUserAndBadge_def)

lemma spec_apply_write:
  "upsertBestScore spec_gateways = db_upsertBestScore"
  "upsertProgress spec_gateways = db_upsertProgress"
  "userBadge_create spec_gateways = db_userBadge_create"
  by (simp_all add: spec_gateways_def)

lemma spec_before_award_frame:
  "badges (snd (unlock_next spec_gateways u l (apply_write spec_gateways (UpsertProgress ul)
             (apply_write spec_gateways (UpsertBestScore a) d)))) = badges d"
  "user_badges (snd (unlock_next spec_gateways u l (apply_write spec_gateways (UpsertProgress ul)
             (apply_write spec_gateways (UpsertBestScore a) d)))) = user_badges d"
  by (simp_all add: spec_unlock_next_store spec_apply_write db_upsertBestScore_def
        db_upsertProgress_def)

lemma filter_create_unlock_next:
  "filter (\<lambda>w. case w of CreateUserBadge ub \<Rightarrow> True | _ \<Rightarrow> False) (fst (unlock_next g u l s)) = []"
  by (simp add: unlock_next_writes)

lemma spec_record_progress_award:
  assumes rp: "record_progress spec_gateways u sc sid result d = (r, ws, d')"
    and res: "awarded_badge result = None"
  shows "let award =
           (if level_completed_now spec_gateways u sid (level_id sc) (score result) (all_correct result) d
            then (case db_findByLevel d (level_id sc) of
                    None \<Rightarrow> None
                  | Some b \<Rightarrow>
                      (case db_findByUserAndBadge d u (badge_id b) of
                         Some existing \<Rightarrow> None
                       | None \<Rightarrow> Some b))
            else None)
         in awarded_badge r = award \<and>
            filter (\<lambda>w. case w of CreateUserBadge ub \<Rightarrow> True | _ \<Rightarrow> False) ws =
              (case award of None \<Rightarrow> []
               | Some b \<Rightarrow> [CreateUserBadge \<lparr>ub_user_id = u, ub_badge_id = badge_id b\<rparr>]) \<and>
            user_badges d' = user_badges d @
              (case award of None \<Rightarrow> []
               | Some b \<Rightarrow> [\<lparr>ub_user_id = u, ub_badge_id = badge_id b\<rparr>])"
proof (cases "level_completed_now spec_gateways u sid (level_id sc) (score result) (all_correct result) d")
  case False
  from rp have "fst (record_progress spec_gateways u sc sid result d) = r"
    and "fst (snd (record_progress spec_gateways u sc sid result d)) = ws"
    and "snd (snd (record_progress spec_gateways u sc sid result d)) = d'" by simp_all
  then have "awarded_badge r = None"
    and "ws = [UpsertBestScore \<lparr>att_user_id = u, att_scenario_id = sid,
                 att_score = score result, att_all_correct = all_correct result\<rparr>,
               UpsertProgress \<lparr>ul_user_id = u, ul_level_id = level_id sc, unlocked = True,
                 completed = False\<rparr>]"
    and "user_badges d' = user_badges d"
    unfolding record_progress_not_done [OF False] using res
    by (auto simp: Let_def spec_apply_write db_upsertBestScore_def db_upsertProgress_def)
  with False show ?thesis by (simp add: Let_def)
next
  case True
  let ?d3 = "snd (unlock_next spec_gateways u (level_id sc)
               (apply_write spec_gateways (UpsertProgress \<lparr>ul_user_id = u, ul_level_id = level_id sc,
                   unlocked = True, completed = True\<rparr>)
                 (apply_write spec_gateways (UpsertBestScore \<lparr>att_user_id = u, att_scenario_id = sid,
                    att_score = score result, att_all_correct = all_correct result\<rparr>) d)))"
  let ?aw = "award_badge spec_gateways u (level_id sc) ?d3"
  have fr: "db_findByLevel ?d3 (level_id sc) = db_findByLevel d (level_id sc)"
    "\<And>b. db_findByUserAndBadge ?d3 u b = db_findByUserAndBadge d u b"
    "user_badges ?d3 = user_badges d"
    by (rule spec_badge_reads_frame(1), rule spec_before_award_frame, rule spec_before_award_frame,
        rule spec_badge_reads_frame(2), rule spec_before_award_frame, rule spec_before_award_frame,
        rule spec_before_award_frame)
  have r: "awarded_badge r = fst ?aw"
    using arg_cong [OF rp, of "\<lambda>x. awarded_badge (fst x)"]
    unfolding record_progress_done [OF True] by (simp add: Let_def)
  have ws: "filter (\<lambda>w. case w of CreateUserBadge ub \<Rightarrow> True | _ \<Rightarrow> False) ws =
            filter (\<lambda>w. case w of CreateUserBadge ub \<Rightarrow> True | _ \<Rightarrow> False) (fst (snd ?aw))"
    using arg_cong [OF rp, of "\<lambda>x. filter (\<lambda>w. case w of CreateUserBadge ub \<Rightarrow> True | _ \<Rightarrow> False)
                                   (fst (snd x))"]
    unfolding record_progress_done [OF True] by (simp add: Let_def filter_create_unlock_next)
  have d': "d' = snd (snd ?aw)"
    using arg_cong [OF rp, of "\<lambda>x. snd (snd x)"]
    unfolding record_progress_done [OF True] by (simp add: Let_def)
  have aw: "?aw =
     (case db_findByLevel d (level_id sc) of
        None \<Rightarrow> (None, [], ?d3)
      | Some b \<Rightarrow>
          (case db_findByUserAndBadge d u (badge_id b) of
             Some existing \<Rightarrow> (None, [], ?d3)
           | None \<Rightarrow> (Some b, [CreateUserBadge \<lparr>ub_user_id = u, ub_badge_id = badge_id b\<rparr>],
                      ?d3\<lparr>user_badges := user_badges d @ [\<lparr>ub_user_id = u, ub_badge_id = badge_id b\<rparr>]\<rparr>)))"
    by (simp only: spec_award_badge fr)
  show ?thesis
  proof (cases "db_findByLevel d (level_id sc)")
    case None
    with True show ?thesis unfolding r ws d' aw by (simp add: Let_def fr del: apply_write.simps)
  next
    case (Some b)
    show ?thesis
    proof (cases "db_findByUserAndBadge d u (badge_id b)")
      case None
      with Some True show ?thesis unfolding r ws d' aw by (simp add: Let_def fr del: apply_write.simps)
    next
      case (Some existing)
      with \<open>db_findByLevel d (level_id sc) = Some b\<close> True show ?thesis
        unfolding r ws d' aw by (simp add: Let_def fr del: apply_write.simps)
    qed
  qed
qed


lemma find_None_not_member:
  "find (\<lambda>row. ub_user_id row = u \<and> ub_badge_id row = b) xs = None \<Longrightarrow>
     \<lparr>ub_user_id = u, ub_badge_id = b\<rparr> \<notin> set xs"
proof
  assume n: "find (\<lambda>row. ub_user_id row = u \<and> ub_badge_id row = b) xs = None"
    and m: "\<lparr>ub_user_id = u, ub_badge_id = b\<rparr> \<in> set xs"
  from n have "\<forall>x \<in> set xs. \<not> (ub_user_id x = u \<and> ub_badge_id x = b)"
    by (simp add: find_None_iff)
  with m have "\<not> (ub_user_id \<lparr>ub_user_id = u, ub_badge_id = b\<rparr> = u \<and>
                  ub_badge_id \<lparr>ub_user_id = u, ub_badge_id = b\<rparr> = b)" by blast
  then show False by simp
qed

lemma count_list_append_new:
  "x \<notin> set xs \<Longrightarrow> count_list (xs @ [x]) y \<le> max 1 (count_list xs y)"
  by (cases "x = y") (simp_all add: count_list_0_iff)

lemma spec_record_progress_badge_count:
  "count_list (user_badges (snd (snd (record_progress spec_gateways u sc sid result d)))) ub
     \<le> max 1 (count_list (user_badges d) ub)"
proof -
  let ?B = "user_badges (snd (snd (record_progress spec_gateways u sc sid result d)))"
  have "?B = user_badges d \<or> (\<exists>x. x \<notin> set (user_badges d) \<and> ?B = user_badges d @ [x])"
    by (auto simp: spec_record_progress_user_badges find_None_not_member split: option.splits)
  then show ?thesis
    using count_list_append_new [of _ "user_badges d" ub] by auto
qed

lemma spec_submit_badge_count:
  "count_list (user_badges (snd (snd (submit spec_gateways req d)))) ub
     \<le> max 1 (count_list (user_badges d) ub)"
proof -
  have key: "\<And>u sc sid result.
      count_list (user_badges (snd (snd (record_progress spec_gateways u sc sid result d)))) ub
        \<le> max (Suc 0) (count_list (user_badges d) ub)"
    using spec_record_progress_badge_count [of _ _ _ _ d ub] by simp
  show ?thesis
    by (simp add: submit_store key split: answers_payload.splits option.splits)
qed

lemma spec_submits_badge_count:
  "count_list (user_badges (submits spec_gateways reqs d)) ub
     \<le> max 1 (count_list (user_badges d) ub)"
proof (induction reqs arbitrary: d)
  case Nil
  show ?case by simp
next
  case (Cons req reqs)
  have "count_list (user_badges (submits spec_gateways (req # reqs) d)) ub
          \<le> max 1 (count_list (user_badges (snd (snd (submit spec_gateways req d)))) ub)"
    using Cons.IH [of "snd (snd (submit spec_gateways req d))"] by simp
  also have "\<dots> \<le> max 1 (max 1 (count_list (user_badges d) ub))"
    using spec_submit_badge_count [of req d ub] by (simp add: max.coboundedI2)
  finally show ?case by simp
qed

text \<open>
  Claim C3. On the modelled store, an authenticated, graded submission awards a badge
  exactly when the level is completed by it, a badge is found for the level and no
  UserBadge row exists for the user and that badge; it then issues one insert, appends
  one row and reports the badge, and otherwise issues no insert, leaves the rows as they
  are and reports none. Over any run of submissions the number of rows of a given
  (user, badge) pair never exceeds the larger of one and what it was at the start.
\<close>

theorem badge_awarded_at_most_once:
  assumes "submit spec_gateways req d = (Inr r, ws, d')"
    and "user_id req = Some u" and "u \<noteq> 0"
    and "getScenario spec_gateways d (params_id req) = Some sc"
  shows "(let award =
            (if level_completed_now spec_gateways u (params_id req) (level_id sc)
                  (score r) (all_correct r) d
             then (case db_findByLevel d (level_id sc) of
                     None \<Rightarrow> None
                   | Some b \<Rightarrow>
                       (case db_findByUserAndBadge d u (badge_id b) of
                          Some existing \<Rightarrow> None
                        | None \<Rightarrow> Some b))
             else None)
          in awarded_badge r = award \<and>
             filter (\<lambda>w. case w of CreateUserBadge ub \<Rightarrow> True | _ \<Rightarrow> False) ws =
               (case award of None \<Rightarrow> []
                | Some b \<Rightarrow> [CreateUserBadge \<lparr>ub_user_id = u, ub_badge_id = badge_id b\<rparr>]) \<and>
             user_badges d' = user_badges d @
               (case award of None \<Rightarrow> []
                | Some b \<Rightarrow> [\<lparr>ub_user_id = u, ub_badge_id = badge_id b\<rparr>])) \<and>
         (\<forall>reqs d0 ub. count_list (user_badges (submits spec_gateways reqs d0)) ub
                          \<le> max 1 (count_list (user_badges d0) ub))"
proof -
  from submit_Inr_D [OF assms(1)] obtain answers where
    a: "userAnswers req = Answers answers"
    and st: "getStepsByScenario spec_gateways d (params_id req) \<noteq> []" by blast
  let ?res = "graded_result sc (params_id req)
                (getStepsByScenario spec_gateways d (params_id req)) answers"
  have rp: "record_progress spec_gateways u sc (params_id req) ?res d = (r, ws, d')"
    using assms a st
    by (simp add: submit_cases truthy_id_def split: prod.splits)
  have none: "awarded_badge ?res = None" by (simp add: graded_result_def)
  from record_progress_fields [OF rp]
  have f: "score ?res = score r" "all_correct ?res = all_correct r" by simp_all
  from spec_record_progress_award [OF rp none, unfolded f] spec_submits_badge_count
  show ?thesis by blast
qed


section \<open>Worked examples\<close>

lemma demo_submit_partial:
  "submit spec_gateways
     \<lparr>params_id = 1, userAnswers = Answers [Some ''a'', Some ''b'', Some ''x'', Some ''d''],
      user_id = Some 7\<rparr> demo_db =
     (Inr \<lparr>score = 75, all_correct = False, res_level_id = 1, res_scenario_id = 1,
           level_progress = Some (LevelIncomplete 1 0 1),
           awarded_badge = None,
           updated_scenario = Some \<lparr>scenario_id = 1, level_id = 1\<rparr>\<rparr>,
      [UpsertBestScore \<lparr>att_user_id = 7, att_scenario_id = 1, att_score = 75, att_all_correct = False\<rparr>,
       UpsertProgress \<lparr>ul_user_id = 7, ul_level_id = 1, unlocked = True, completed = False\<rparr>],
      demo_db\<lparr>attempts := [((7, 4), (100, True)), ((7, 1), (75, False))],
               user_levels := [((7, 1), (True, False))]\<rparr>)"
  by (simp add: handler_defs spec_store_defs demo_db_def demo_steps_def demo_badge_def
        js_score_3_of_4 demo_upper)

lemma demo_submit_level1:
  "submit spec_gateways
     \<lparr>params_id = 1, userAnswers = Answers [Some ''A'', Some ''B'', Some ''C'', Some ''D''],
      user_id = Some 7\<rparr> demo_db =
     (Inr \<lparr>score = 100, all_correct = True, res_level_id = 1, res_scenario_id = 1,
           level_progress = Some (LevelCompleted 1 2),
           awarded_badge = Some (demo_badge 10),
           updated_scenario = Some \<lparr>scenario_id = 1, level_id = 1\<rparr>\<rparr>,
      [UpsertBestScore \<lparr>att_user_id = 7, att_scenario_id = 1, att_score = 100, att_all_correct = True\<rparr>,
       UpsertProgress \<lparr>ul_user_id = 7, ul_level_id = 1, unlocked = True, completed = True\<rparr>,
       UpsertProgress \<lparr>ul_user_id = 7, ul_level_id = 2, unlocked = True, completed = False\<rparr>,
       CreateUserBadge \<lparr>ub_user_id = 7, ub_badge_id = 10\<rparr>],
      demo_db\<lparr>attempts := [((7, 4), (100, True)), ((7, 1), (100, True))],
               user_badges := [\<lparr>ub_user_id = 7, ub_badge_id = 10\<rparr>],
               user_levels := [((7, 1), (True, True)), ((7, 2), (True, False))]\<rparr>)"
  using js_score_all [of 4]
  by (simp add: handler_defs spec_store_defs demo_db_def demo_steps_def demo_badge_def
        demo_upper)

lemma demo_submit_overwrite:
  "submit spec_gateways
     \<lparr>params_id = 4, userAnswers = Answers [Some ''b''], user_id = Some 7\<rparr> demo_db =
     (Inr \<lparr>score = 0, all_correct = False, res_level_id = 3, res_scenario_id = 4,
           level_progress = Some (LevelIncomplete 3 0 2),
           awarded_badge = None,
           updated_scenario = Some \<lparr>scenario_id = 4, level_id = 3\<rparr>\<rparr>,
      [UpsertBestScore \<lparr>att_user_id = 7, att_scenario_id = 4, att_score = 0, att_all_correct = False\<rparr>,
       UpsertProgress \<lparr>ul_user_id = 7, ul_level_id = 3, unlocked = True, completed = False\<rparr>],
      demo_db\<lparr>attempts := [((7, 4), (0, False))],
               user_levels := [((7, 3), (True, False))]\<rparr>)"
  by (simp add: handler_defs spec_store_defs demo_db_def demo_steps_def demo_badge_def
        js_score_0_of_1 demo_upper)


lemma demo_scenarios:
  "getScenario spec_gateways demo_db 1 = Some \<lparr>scenario_id = 1, level_id = 1\<rparr>"
  "getScenario spec_gateways demo_db 2 = Some \<lparr>scenario_id = 2, level_id = 6\<rparr>"
  "getScenario spec_gateways demo_db 4 = Some \<lparr>scenario_id = 4, level_id = 3\<rparr>"
  by (simp_all add: spec_store_defs demo_db_def)

theorem level_completion_flag_witness:
  "db_countPerfectByUserInLevel demo_db 7 1 = 0 \<and> db_countByLevel demo_db 1 = 1 \<and>
   (\<exists>r ws d'. submit spec_gateways
       \<lparr>params_id = 1, userAnswers = Answers [Some ''A'', Some ''B'', Some ''C'', Some ''D''],
        user_id = Some 7\<rparr> demo_db = (Inr r, ws, d') \<and>
      db_countPerfectByUserInLevel
        (db_upsertBestScore \<lparr>att_user_id = 7, att_scenario_id = 1, att_score = score r,
                              att_all_correct = all_correct r\<rparr> demo_db) 7 1 = 1 \<and>
      take 2 ws =
        [UpsertBestScore \<lparr>att_user_id = 7, att_scenario_id = 1, att_score = 100, att_all_correct = True\<rparr>,
         UpsertProgress \<lparr>ul_user_id = 7, ul_level_id = 1, unlocked = True, completed = True\<rparr>] \<and>
      level_progress r = Some (LevelCompleted 1 2) \<and>
      map_of (user_levels d') (7, 1) = Some (True, True))"
proof -
  let ?req = "\<lparr>params_id = 1, userAnswers = Answers [Some ''A'', Some ''B'', Some ''C'', Some ''D''],
        user_id = Some 7\<rparr>"
  let ?r = "\<lparr>score = 100, all_correct = True, res_level_id = 1, res_scenario_id = 1,
           level_progress = Some (LevelCompleted 1 2),
           awarded_badge = Some (demo_badge 10),
           updated_scenario = Some \<lparr>scenario_id = 1, level_id = 1\<rparr>\<rparr>"
  let ?ws = "[UpsertBestScore \<lparr>att_user_id = 7, att_scenario_id = 1, att_score = 100, att_all_correct = True\<rparr>,
       UpsertProgress \<lparr>ul_user_id = 7, ul_level_id = 1, unlocked = True, completed = True\<rparr>,
       UpsertProgress \<lparr>ul_user_id = 7, ul_level_id = 2, unlocked = True, completed = False\<rparr>,
       CreateUserBadge \<lparr>ub_user_id = 7, ub_badge_id = 10\<rparr>]"
  let ?d' = "demo_db\<lparr>attempts := [((7, 4), (100, True)), ((7, 1), (100, True))],
               user_badges := [\<lparr>ub_user_id = 7, ub_badge_id = 10\<rparr>],
               user_levels := [((7, 1), (True, True)), ((7, 2), (True, False))]\<rparr>"
  note e = demo_submit_level1
  have h2: "user_id ?req = Some 7" by simp
  have h3: "(7::nat) \<noteq> 0" by simp
  have h4: "getScenario spec_gateways demo_db (params_id ?req) = Some \<lparr>scenario_id = 1, level_id = 1\<rparr>"
    using demo_scenarios(1) by simp
  have before: "db_countPerfectByUserInLevel demo_db 7 1 = 0" "db_countByLevel demo_db 1 = 1"
    by (simp_all add: db_countPerfectByUserInLevel_def db_countByLevel_def db_scenario_findById_def
          demo_db_def)
  have after: "db_countPerfectByUserInLevel
        (db_upsertBestScore \<lparr>att_user_id = 7, att_scenario_id = 1, att_score = score ?r,
                              att_all_correct = all_correct ?r\<rparr> demo_db) 7 1 = 1"
       "db_countByLevel
        (db_upsertBestScore \<lparr>att_user_id = 7, att_scenario_id = 1, att_score = score ?r,
                              att_all_correct = all_correct ?r\<rparr> demo_db) 1 = 1"
    by (simp_all add: db_countPerfectByUserInLevel_def db_countByLevel_def db_scenario_findById_def
          db_upsertBestScore_def demo_db_def)
  have g: "upsertBestScore spec_gateways = db_upsertBestScore"
          "countByLevel spec_gateways = db_countByLevel"
          "countPerfectByUserInLevel spec_gateways = db_countPerfectByUserInLevel"
    by (simp_all add: spec_gateways_def)
  have p: "params_id ?req = 1" "level_id \<lparr>scenario_id = 1, level_id = 1\<rparr> = 1" by simp_all
  from level_completion_flag [OF e h2 h3 h4, unfolded Let_def g p after]
  have "take 2 ?ws =
        [UpsertBestScore \<lparr>att_user_id = 7, att_scenario_id = 1, att_score = score ?r, att_all_correct = all_correct ?r\<rparr>,
         UpsertProgress \<lparr>ul_user_id = 7, ul_level_id = 1, unlocked = True, completed = (0 < (1::nat) \<and> (1::nat) = 1)\<rparr>] \<and>
        level_progress ?r = Some (if 0 < (1::nat) \<and> (1::nat) = 1 then LevelCompleted 1 (1 + 1)
                                  else LevelIncomplete 1 1 1)"
    by (intro conjI) (erule conjunct1, erule conjunct2 [THEN conjunct1])
  then have t: "take 2 ?ws =
        [UpsertBestScore \<lparr>att_user_id = 7, att_scenario_id = 1, att_score = 100, att_all_correct = True\<rparr>,
         UpsertProgress \<lparr>ul_user_id = 7, ul_level_id = 1, unlocked = True, completed = True\<rparr>] \<and>
        level_progress ?r = Some (LevelCompleted 1 2)"
    by simp
  have row: "map_of (user_levels ?d') (7, 1) = Some (True, True)" by simp
  from e t after(1) row
  have "\<exists>r ws d'. submit spec_gateways ?req demo_db = (Inr r, ws, d') \<and>
      db_countPerfectByUserInLevel
        (db_upsertBestScore \<lparr>att_user_id = 7, att_scenario_id = 1, att_score = score r,
                              att_all_correct = all_correct r\<rparr> demo_db) 7 1 = 1 \<and>
      take 2 ws =
        [UpsertBestScore \<lparr>att_user_id = 7, att_scenario_id = 1, att_score = 100, att_all_correct = True\<rparr>,
         UpsertProgress \<lparr>ul_user_id = 7, ul_level_id = 1, unlocked = True, completed = True\<rparr>] \<and>
      level_progress r = Some (LevelCompleted 1 2) \<and>
      map_of (user_levels d') (7, 1) = Some (True, True)"
    by blast
  with before show ?thesis by (intro conjI)
qed

theorem reported_unlock_at_ceiling_witness:
  "\<exists>r ws d'. submit spec_gateways
       \<lparr>params_id = 2, userAnswers = Answers [Some ''b''], user_id = Some 7\<rparr> demo_db = (Inr r, ws, d') \<and>
      level_progress r = Some (LevelCompleted 6 7) \<and>
      filter (\<lambda>w. case w of UpsertProgress ul \<Rightarrow> ul_level_id ul = 7 | _ \<Rightarrow> False) ws = []"
proof -
  let ?req = "\<lparr>params_id = 2, userAnswers = Answers [Some ''b''], user_id = Some 7\<rparr>"
  note e = demo_submit_level6
  have h2: "user_id ?req = Some 7" by simp
  have h3: "(7::nat) \<noteq> 0" by simp
  have h4: "getScenario spec_gateways demo_db (params_id ?req) = Some \<lparr>scenario_id = 2, level_id = 6\<rparr>"
    using demo_scenarios(2) by simp
  have h5: "level_completed_now spec_gateways 7 (params_id ?req) (level_id \<lparr>scenario_id = 2, level_id = 6\<rparr>)
              (score \<lparr>score = 100, all_correct = True, res_level_id = 6, res_scenario_id = 2,
           level_progress = Some (LevelCompleted 6 7),
           awarded_badge = Some (demo_badge 60),
           updated_scenario = Some \<lparr>scenario_id = 2, level_id = 6\<rparr>\<rparr>)
              (all_correct \<lparr>score = 100, all_correct = True, res_level_id = 6, res_scenario_id = 2,
           level_progress = Some (LevelCompleted 6 7),
           awarded_badge = Some (demo_badge 60),
           updated_scenario = Some \<lparr>scenario_id = 2, level_id = 6\<rparr>\<rparr>) demo_db"
    by (simp add: spec_level_completed_now demo_db_def)
  have h6: "6 \<le> level_id \<lparr>scenario_id = 2, level_id = 6\<rparr>" by simp
  from reported_unlock_at_ceiling [OF e h2 h3 h4 h5 h6]
  have "level_progress \<lparr>score = 100, all_correct = True, res_level_id = 6, res_scenario_id = 2,
           level_progress = Some (LevelCompleted 6 7),
           awarded_badge = Some (demo_badge 60),
           updated_scenario = Some \<lparr>scenario_id = 2, level_id = 6\<rparr>\<rparr> = Some (LevelCompleted 6 7)"
    by simp
  with e show ?thesis by simp
qed


theorem next_level_unlock_witness:
  "map_of (user_levels demo_db) (7, 2) = None \<and>
   (\<exists>resp ws d'. submit spec_gateways
       \<lparr>params_id = 1, userAnswers = Answers [Some ''A'', Some ''B'', Some ''C'', Some ''D''],
        user_id = Some 7\<rparr> demo_db = (resp, ws, d') \<and>
      {ul. UpsertProgress ul \<in> set ws \<and> ul_level_id ul = 2} =
        {\<lparr>ul_user_id = 7, ul_level_id = 2, unlocked = True, completed = False\<rparr>} \<and>
      map_of (user_levels d') (7, 2) = Some (True, False)) \<and>
   (\<exists>resp ws d'. submit spec_gateways
       \<lparr>params_id = 2, userAnswers = Answers [Some ''b''], user_id = Some 7\<rparr> demo_db = (resp, ws, d') \<and>
      {ul. UpsertProgress ul \<in> set ws \<and> ul_level_id ul = 7} = {} \<and>
      map_of (user_levels d') (7, 7) = None)"
proof -
  let ?req1 = "\<lparr>params_id = 1, userAnswers = Answers [Some ''A'', Some ''B'', Some ''C'', Some ''D''],
        user_id = Some 7\<rparr>"
  let ?r1 = "\<lparr>score = 100, all_correct = True, res_level_id = 1, res_scenario_id = 1,
           level_progress = Some (LevelCompleted 1 2),
           awarded_badge = Some (demo_badge 10),
           updated_scenario = Some \<lparr>scenario_id = 1, level_id = 1\<rparr>\<rparr>"
  let ?ws1 = "[UpsertBestScore \<lparr>att_user_id = 7, att_scenario_id = 1, att_score = 100, att_all_correct = True\<rparr>,
       UpsertProgress \<lparr>ul_user_id = 7, ul_level_id = 1, unlocked = True, completed = True\<rparr>,
       UpsertProgress \<lparr>ul_user_id = 7, ul_level_id = 2, unlocked = True, completed = False\<rparr>,
       CreateUserBadge \<lparr>ub_user_id = 7, ub_badge_id = 10\<rparr>]"
  let ?d1 = "demo_db\<lparr>attempts := [((7, 4), (100, True)), ((7, 1), (100, True))],
               user_badges := [\<lparr>ub_user_id = 7, ub_badge_id = 10\<rparr>],
               user_levels := [((7, 1), (True, True)), ((7, 2), (True, False))]\<rparr>"
  let ?req6 = "\<lparr>params_id = 2, userAnswers = Answers [Some ''b''], user_id = Some 7\<rparr>"
  let ?r6 = "\<lparr>score = 100, all_correct = True, res_level_id = 6, res_scenario_id = 2,
           level_progress = Some (LevelCompleted 6 7),
           awarded_badge = Some (demo_badge 60),
           updated_scenario = Some \<lparr>scenario_id = 2, level_id = 6\<rparr>\<rparr>"
  let ?ws6 = "[UpsertBestScore \<lparr>att_user_id = 7, att_scenario_id = 2, att_score = 100, att_all_correct = True\<rparr>,
       UpsertProgress \<lparr>ul_user_id = 7, ul_level_id = 6, unlocked = True, completed = True\<rparr>,
       CreateUserBadge \<lparr>ub_user_id = 7, ub_badge_id = 60\<rparr>]"
  let ?d6 = "demo_db\<lparr>attempts := [((7, 4), (100, True)), ((7, 2), (100, True))],
               user_badges := [\<lparr>ub_user_id = 7, ub_badge_id = 60\<rparr>],
               user_levels := [((7, 6), (True, True))]\<rparr>"
  note e1 = demo_submit_level1
  note e6 = demo_submit_level6
  have s1: "getScenario spec_gateways demo_db (params_id ?req1) = Some \<lparr>scenario_id = 1, level_id = 1\<rparr>"
    using demo_scenarios(1) by simp
  have s6: "getScenario spec_gateways demo_db (params_id ?req6) = Some \<lparr>scenario_id = 2, level_id = 6\<rparr>"
    using demo_scenarios(2) by simp
  have l2: "level_id \<lparr>scenario_id = 1, level_id = 1\<rparr> + 1 = 2" by simp
  have l7: "level_id \<lparr>scenario_id = 2, level_id = 6\<rparr> + 1 = 7" by simp
  have c1: "?r1 = ?r1 \<and> user_id ?req1 = Some 7 \<and> (7::nat) \<noteq> 0 \<and>
            level_completed_now spec_gateways 7 (params_id ?req1)
              (level_id \<lparr>scenario_id = 1, level_id = 1\<rparr>) (score ?r1) (all_correct ?r1) demo_db \<and>
            level_id \<lparr>scenario_id = 1, level_id = 1\<rparr> < 6"
    by (simp add: spec_level_completed_now demo_db_def)
  note t1 = next_level_unlock [OF e1 s1]
  from t1 c1
  have a: "{ul. UpsertProgress ul \<in> set ?ws1 \<and> ul_level_id ul = level_id \<lparr>scenario_id = 1, level_id = 1\<rparr> + 1} =
           {\<lparr>ul_user_id = 7, ul_level_id = level_id \<lparr>scenario_id = 1, level_id = 1\<rparr> + 1,
             unlocked = True, completed = False\<rparr>}"
    by blast
  have x1: "\<exists>r. (Inr ?r1 :: http_error + submit_result) = Inr r \<and> user_id ?req1 = Some 7 \<and> (7::nat) \<noteq> 0 \<and>
                level_completed_now spec_gateways 7 (params_id ?req1)
                  (level_id \<lparr>scenario_id = 1, level_id = 1\<rparr>) (score r) (all_correct r) demo_db \<and>
                level_id \<lparr>scenario_id = 1, level_id = 1\<rparr> < 6"
    using c1 by blast
  from t1 [THEN conjunct2, THEN conjunct2, rule_format, OF conjI [OF e1 s1], of 7]
  have row1: "map_of (user_levels ?d1) (7, level_id \<lparr>scenario_id = 1, level_id = 1\<rparr> + 1) = Some (True, False)"
    by (simp only: x1 if_True)
  have c6: "\<not> (\<exists>r u. (Inr ?r6 :: http_error + submit_result) = Inr r \<and>
            user_id ?req6 = Some u \<and> u \<noteq> 0 \<and>
            level_completed_now spec_gateways u (params_id ?req6)
              (level_id \<lparr>scenario_id = 2, level_id = 6\<rparr>) (score r) (all_correct r) demo_db \<and>
            level_id \<lparr>scenario_id = 2, level_id = 6\<rparr> < 6)"
    by simp
  note t6 = next_level_unlock [OF e6 s6]
  from t6 c6
  have b: "{ul. UpsertProgress ul \<in> set ?ws6 \<and> ul_level_id ul = level_id \<lparr>scenario_id = 2, level_id = 6\<rparr> + 1} = {}"
    by blast
  have x6: "\<not> (\<exists>r. (Inr ?r6 :: http_error + submit_result) = Inr r \<and> user_id ?req6 = Some 7 \<and> (7::nat) \<noteq> 0 \<and>
                level_completed_now spec_gateways 7 (params_id ?req6)
                  (level_id \<lparr>scenario_id = 2, level_id = 6\<rparr>) (score r) (all_correct r) demo_db \<and>
                level_id \<lparr>scenario_id = 2, level_id = 6\<rparr> < 6)"
    by simp
  from t6 [THEN conjunct2, THEN conjunct2, rule_format, OF conjI [OF e6 s6], of 7]
  have row6: "map_of (user_levels ?d6) (7, level_id \<lparr>scenario_id = 2, level_id = 6\<rparr> + 1) =
              map_of (user_levels demo_db) (7, level_id \<lparr>scenario_id = 2, level_id = 6\<rparr> + 1)"
    by (simp only: x6 if_False)
  have o: "map_of (user_levels demo_db) (7, 2) = None" "map_of (user_levels demo_db) (7, 7) = None"
    by (simp_all add: demo_db_def)
  note a' = a [unfolded l2] and b' = b [unfolded l7]
    and row1' = row1 [unfolded l2] and row6' = row6 [unfolded l7 o]
  from e1 a' row1' have p1: "\<exists>resp ws d'. submit spec_gateways ?req1 demo_db = (resp, ws, d') \<and>
      {ul. UpsertProgress ul \<in> set ws \<and> ul_level_id ul = 2} =
        {\<lparr>ul_user_id = 7, ul_level_id = 2, unlocked = True, completed = False\<rparr>} \<and>
      map_of (user_levels d') (7, 2) = Some (True, False)" by blast
  from e6 b' row6' have p6: "\<exists>resp ws d'. submit spec_gateways ?req6 demo_db = (resp, ws, d') \<and>
      {ul. UpsertProgress ul \<in> set ws \<and> ul_level_id ul = 7} = {} \<and>
      map_of (user_levels d') (7, 7) = None" by blast
  from o(1) p1 p6 show ?thesis by (intro conjI)
qed


theorem submission_idempotent_witness:
  "snd (snd (submit spec_gateways
       \<lparr>params_id = 2, userAnswers = Answers [Some ''b''], user_id = Some 7\<rparr>
       (demo_db\<lparr>attempts := [((7, 4), (100, True)), ((7, 2), (100, True))],
               user_badges := [\<lparr>ub_user_id = 7, ub_badge_id = 60\<rparr>],
               user_levels := [((7, 6), (True, True))]\<rparr>))) =
   demo_db\<lparr>attempts := [((7, 4), (100, True)), ((7, 2), (100, True))],
           user_badges := [\<lparr>ub_user_id = 7, ub_badge_id = 60\<rparr>],
           user_levels := [((7, 6), (True, True))]\<rparr>"
  using submission_idempotent
          [of "\<lparr>params_id = 2, userAnswers = Answers [Some ''b''], user_id = Some 7\<rparr>" demo_db]
  by (simp add: demo_submit_level6 Let_def)

theorem best_score_always_written_witness:
  "map_of (attempts demo_db) (7, 4) = Some (100, True) \<and>
   (\<exists>r ws d'. submit spec_gateways
       \<lparr>params_id = 4, userAnswers = Answers [Some ''b''], user_id = Some 7\<rparr> demo_db = (Inr r, ws, d') \<and>
      score r = 0 \<and>
      hd ws = UpsertBestScore \<lparr>att_user_id = 7, att_scenario_id = 4, att_score = 0, att_all_correct = False\<rparr> \<and>
      map_of (attempts d') (7, 4) = Some (0, False))"
proof -
  let ?req = "\<lparr>params_id = 4, userAnswers = Answers [Some ''b''], user_id = Some 7\<rparr>"
  note e = demo_submit_overwrite
  have h2: "user_id ?req = Some 7" by simp
  have h3: "(7::nat) \<noteq> 0" by simp
  note t = best_score_always_written [OF e h2 h3]
  from t e have "map_of (attempts (demo_db\<lparr>attempts := [((7, 4), (0, False))],
               user_levels := [((7, 3), (True, False))]\<rparr>)) (7, params_id ?req) = Some (0, False)"
    by simp
  moreover have "map_of (attempts demo_db) (7, 4) = Some (100, True)"
    by (simp add: demo_db_def)
  ultimately show ?thesis using e by simp
qed

theorem badge_awarded_at_most_once_witness:
  "(\<exists>r ws d'. submit spec_gateways
       \<lparr>params_id = 1, userAnswers = Answers [Some ''A'', Some ''B'', Some ''C'', Some ''D''],
        user_id = Some 7\<rparr> demo_db = (Inr r, ws, d') \<and>
      awarded_badge r = Some (demo_badge 10) \<and>
      filter (\<lambda>w. case w of CreateUserBadge ub \<Rightarrow> True | _ \<Rightarrow> False) ws =
        [CreateUserBadge \<lparr>ub_user_id = 7, ub_badge_id = 10\<rparr>] \<and>
      user_badges d' = [\<lparr>ub_user_id = 7, ub_badge_id = 10\<rparr>]) \<and>
   count_list (user_badges (submits spec_gateways
       (replicate 3 \<lparr>params_id = 1,
                      userAnswers = Answers [Some ''A'', Some ''B'', Some ''C'', Some ''D''],
                      user_id = Some 7\<rparr>) demo_db))
     \<lparr>ub_user_id = 7, ub_badge_id = 10\<rparr> \<le> 1"
proof -
  let ?req = "\<lparr>params_id = 1, userAnswers = Answers [Some ''A'', Some ''B'', Some ''C'', Some ''D''],
        user_id = Some 7\<rparr>"
  note e = demo_submit_level1
  have h2: "user_id ?req = Some 7" by simp
  have h3: "(7::nat) \<noteq> 0" by simp
  have h4: "getScenario spec_gateways demo_db (params_id ?req) = Some \<lparr>scenario_id = 1, level_id = 1\<rparr>"
    using demo_scenarios(1) by simp
  note t = badge_awarded_at_most_once [OF e h2 h3 h4]
  have dn: "level_completed_now spec_gateways 7 1 1 100 True demo_db"
    by (simp add: spec_level_completed_now demo_db_def)
  have fb: "db_findByLevel demo_db 1 = Some (demo_badge 10)"
    by (simp add: db_findByLevel_def demo_db_def)
  have fu: "db_findByUserAndBadge demo_db 7 10 = None"
    by (simp add: db_findByUserAndBadge_def demo_db_def)
  from t have t1: "awarded_badge \<lparr>score = 100, all_correct = True, res_level_id = 1, res_scenario_id = 1,
           level_progress = Some (LevelCompleted 1 2),
           awarded_badge = Some (demo_badge 10),
           updated_scenario = Some \<lparr>scenario_id = 1, level_id = 1\<rparr>\<rparr> =
         (if level_completed_now spec_gateways 7 1 1 100 True demo_db
          then (case db_findByLevel demo_db 1 of
                  None \<Rightarrow> None
                | Some b \<Rightarrow>
                    (case db_findByUserAndBadge demo_db 7 (badge_id b) of
                       Some existing \<Rightarrow> None
                     | None \<Rightarrow> Some b))
          else None)"
    by (simp add: Let_def)
  from t1 dn fb fu
  have a: "awarded_badge \<lparr>score = 100, all_correct = True, res_level_id = 1, res_scenario_id = 1,
           level_progress = Some (LevelCompleted 1 2),
           awarded_badge = Some (demo_badge 10),
           updated_scenario = Some \<lparr>scenario_id = 1, level_id = 1\<rparr>\<rparr> = Some (demo_badge 10) \<and>
         user_badges (demo_db\<lparr>attempts := [((7, 4), (100, True)), ((7, 1), (100, True))],
               user_badges := [\<lparr>ub_user_id = 7, ub_badge_id = 10\<rparr>],
               user_levels := [((7, 1), (True, True)), ((7, 2), (True, False))]\<rparr>) =
           user_badges demo_db @ [\<lparr>ub_user_id = 7, ub_badge_id = 10\<rparr>]"
    by (simp add: demo_badge_def demo_db_def)
  from t have "count_list (user_badges (submits spec_gateways (replicate 3 ?req) demo_db))
                 \<lparr>ub_user_id = 7, ub_badge_id = 10\<rparr>
               \<le> max 1 (count_list (user_badges demo_db) \<lparr>ub_user_id = 7, ub_badge_id = 10\<rparr>)"
    by blast
  then have b: "count_list (user_badges (submits spec_gateways (replicate 3 ?req) demo_db))
                 \<lparr>ub_user_id = 7, ub_badge_id = 10\<rparr> \<le> 1"
    by (simp add: demo_db_def)
  from e a b show ?thesis by simp
qed

lemma demo_count_gaps:
  "length (filter (\<lambda>i. answer_correct [Some ''a'', None, Some [], Some ''d'', Some ''zzz''] i
                          ([\<lparr>step_id = 11, step_order = 1, correct_action = Some ''A''\<rparr>,
                            \<lparr>step_id = 12, step_order = 2, correct_action = Some ''B''\<rparr>,
                            \<lparr>step_id = 13, step_order = 3, correct_action = Some ''C''\<rparr>,
                            \<lparr>step_id = 14, step_order = 4, correct_action = Some ''D''\<rparr>] ! i))
                  [0..<4]) = 2"
  by code_simp

theorem grading_positional_witness:
  "correctCount demo_steps [Some ''a'', None, Some [], Some ''d'', Some ''zzz''] = 2 \<and>
   correctCount (rev demo_steps) [Some ''a'', None, Some [], Some ''d'', Some ''zzz''] = 2 \<and>
   correctCount demo_steps [Some ''a'', None, Some [], Some ''d''] = 2 \<and>
   \<not> answer_correct [Some ''a'', None, Some [], Some ''d'', Some ''zzz''] 1
       \<lparr>step_id = 12, step_order = 2, correct_action = Some ''B''\<rparr> \<and>
   (\<exists>r ws s'. submit spec_gateways
       \<lparr>params_id = 1, userAnswers = Answers [Some ''a'', None, Some [], Some ''d'', Some ''zzz''],
        user_id = None\<rparr> demo_db = (Inr r, ws, s') \<and> \<not> all_correct r)"
proof -
  let ?answers = "[Some ''a'', None, Some [], Some ''d'', Some ''zzz'']"
  let ?req = "\<lparr>params_id = 1, userAnswers = Answers ?answers, user_id = None\<rparr>"
  let ?step = "\<lparr>step_id = 12, step_order = 2, correct_action = Some ''B''\<rparr>"
  let ?sc = "\<lparr>scenario_id = 1, level_id = 1\<rparr>"
  note t = grading_positional [of demo_steps ?answers 1 ?step "rev demo_steps" ?req spec_gateways demo_db ?sc]
  have h1: "length ?answers \<le> 1 \<or> ?answers ! 1 = None \<or> ?answers ! 1 = Some []" by simp
  have h2: "mset (rev demo_steps) = mset demo_steps \<and> distinct (map step_order demo_steps)"
    by (simp add: demo_steps_def)
  have h3: "userAnswers ?req = Answers ?answers \<and>
            getScenario spec_gateways demo_db (params_id ?req) = Some ?sc \<and>
            getStepsByScenario spec_gateways demo_db (params_id ?req) = demo_steps \<and> demo_steps \<noteq> []"
    using demo_scenarios(1) demo_steps_1 by (simp add: demo_steps_def)
  have l: "length demo_steps = 4" by (simp add: demo_steps_def)
  from t have c: "correctCount demo_steps ?answers = 2"
    unfolding demo_steps_sorted l demo_count_gaps by blast
  from t h2 have c': "correctCount (rev demo_steps) ?answers = correctCount demo_steps ?answers"
    by blast
  from t have c'': "correctCount demo_steps ?answers = correctCount demo_steps (take (length demo_steps) ?answers)"
    by blast
  from t h1 have n: "\<not> answer_correct ?answers 1 ?step" by blast
  from t h3 obtain r ws s' where
    s: "submit spec_gateways ?req demo_db = (Inr r, ws, s')"
    and a: "all_correct r = (correctCount demo_steps ?answers = length demo_steps)" by blast
  from a c l have "\<not> all_correct r" by simp
  with s c c' c'' n l show ?thesis by simp
qed



subsection \<open>A percentage that ends in one half\<close>










end
